theory Spec2Isabelle
  imports Main "HOL-Library.Sublist"
begin

section \<open>Change objects (changes.js)\<close>

text \<open>
  A path element is a JavaScript string or a non-negative integer. A change object is a
  plain object with the optional keys \<open>p\<close> (path), \<open>f\<close> (function name), \<open>a\<close> (arguments)
  and \<open>c\<close> (children); an absent key is \<open>None\<close>, so that a present but empty array
  (\<open>Some []\<close>) stays distinct from a missing one, as \<open>isNotEmpty\<close> and the
  \<open>delete\<close> statements of the source require.
\<close>

datatype segment = Key string | Index nat

datatype 'a change =
  Change (ch_p: "segment list option") (ch_f: "string option")
         (ch_a: "'a list option") (ch_c: "'a change list option")

text \<open>The object literal \<open>{}\<close>.\<close>

definition emptyChange :: "'a change" where
  "emptyChange = Change None None None None"

text \<open>\<open>isNotEmpty(obj)\<close>: the object has at least one enumerable key.\<close>

definition isNotEmpty :: "'a change \<Rightarrow> bool" where
  "isNotEmpty ch =
     (ch_p ch \<noteq> None \<or> ch_f ch \<noteq> None \<or> ch_a ch \<noteq> None \<or> ch_c ch \<noteq> None)"

text \<open>
  JavaScript truthiness of the values the source tests with \<open>!\<close>: a function name is
  falsy when it is missing or the empty string, a path element when it is the empty
  string or the number zero.
\<close>

definition falsyName :: "string option \<Rightarrow> bool" where
  "falsyName fn = (case fn of None \<Rightarrow> True | Some s \<Rightarrow> s = [])"

definition falsySegment :: "segment \<Rightarrow> bool" where
  "falsySegment s = (case s of Key k \<Rightarrow> k = [] | Index n \<Rightarrow> n = 0)"

subsection \<open>unnestSingleChildren\<close>

fun unnestSingleChildren :: "'a change \<Rightarrow> 'a change" where
  "unnestSingleChildren (Change p f a None) =
     (if falsyName f then emptyChange else Change p f a None)"
| "unnestSingleChildren (Change p f a (Some cs)) =
     (case filter isNotEmpty (map unnestSingleChildren cs) of
        [] \<Rightarrow> if falsyName f then emptyChange else Change p f a None
      | [child] \<Rightarrow>
          (let childPath = (case ch_p child of None \<Rightarrow> [] | Some q \<Rightarrow> q);
               path = (case p of
                         None \<Rightarrow> childPath
                       | Some pp \<Rightarrow> if pp \<noteq> [] then pp @ childPath else childPath)
           in Change (if path \<noteq> [] then Some path else None)
                (ch_f child) (ch_a child) (ch_c child))
      | children \<Rightarrow> Change p f a (Some children))"

text \<open>\<open>change.p || []\<close>: the path of a change, empty when the key is missing.\<close>

definition pathOf :: "'a change \<Rightarrow> segment list" where
  "pathOf ch = (case ch_p ch of None \<Rightarrow> [] | Some q \<Rightarrow> q)"

subsection \<open>findCommonPrefix\<close>

definition hasPath :: "'a change \<Rightarrow> bool" where
  "hasPath ch = (case ch_p ch of None \<Rightarrow> False | Some q \<Rightarrow> q \<noteq> [])"

text \<open>\<open>change.p[index]\<close>; \<open>None\<close> is \<open>undefined\<close> (the index is out of range).\<close>

definition pathAt :: "'a change \<Rightarrow> nat \<Rightarrow> segment option" where
  "pathAt ch index =
     (case ch_p ch of
        None \<Rightarrow> None
      | Some q \<Rightarrow> if index < length q then Some (q ! index) else None)"

text \<open>
  The \<open>while (true)\<close> loop of \<open>findCommonPrefix\<close>: it is entered only with a non-empty
  list of changes that all have a non-empty path, and ends at the latest when \<open>index\<close>
  runs off the first path.
\<close>

function findCommonPrefix_loop ::
  "'a change list \<Rightarrow> nat \<Rightarrow> segment list \<Rightarrow> segment list" where
  "findCommonPrefix_loop changes index commonPrefix =
     (case pathAt (hd changes) index of
        None \<Rightarrow> commonPrefix
      | Some pathElement \<Rightarrow>
          if falsySegment pathElement then commonPrefix
          else if list_ex (\<lambda>ch. pathAt ch index \<noteq> Some pathElement) (tl changes)
          then commonPrefix
          else findCommonPrefix_loop changes (Suc index) (commonPrefix @ [pathElement]))"
  by pat_completeness auto
termination
  by (relation "measure (\<lambda>(changes, index, commonPrefix).
        length (case ch_p (hd changes) of None \<Rightarrow> [] | Some q \<Rightarrow> q) - index)")
     (auto simp: pathAt_def split: option.splits if_splits)

definition findCommonPrefix :: "'a change list \<Rightarrow> segment list" where
  "findCommonPrefix changes =
     (if changes = [] then []
      else if list_ex (\<lambda>ch. \<not> hasPath ch) changes then []
      else findCommonPrefix_loop changes 0 [])"

subsection \<open>consolidateChanges\<close>

text \<open>
  The first \<open>map\<close> callback of \<open>consolidateChanges\<close> (the common prefix is not empty).
  The source reads \<open>change.p.slice\<close> without a test; a non-empty common prefix is only
  returned when every change has a path (lemma \<open>findCommonPrefix_nonempty_hasPath\<close>),
  so the \<open>None\<close> branch is never taken from \<open>consolidateChanges\<close>.
\<close>

definition stripCommonPrefix :: "nat \<Rightarrow> 'a change \<Rightarrow> 'a change" where
  "stripCommonPrefix numCommonElements ch =
     (case ch_p ch of
        None \<Rightarrow> ch
      | Some q \<Rightarrow>
          (let newP = drop numCommonElements q
           in Change (if newP \<noteq> [] then Some newP else None) (ch_f ch) (ch_a ch) (ch_c ch)))"

text \<open>The second \<open>map\<close> callback (\<open>// Zap empty p\<close>).\<close>

definition zapEmptyPath :: "'a change \<Rightarrow> 'a change" where
  "zapEmptyPath ch =
     (if ch_p ch = Some [] then Change None (ch_f ch) (ch_a ch) (ch_c ch) else ch)"

definition addPathPrefix :: "'a change \<Rightarrow> segment list \<Rightarrow> 'a change" where
  "addPathPrefix ch prefixPath =
     Change (Some (prefixPath @ (case ch_p ch of None \<Rightarrow> [] | Some q \<Rightarrow> q)))
            (ch_f ch) (ch_a ch) (ch_c ch)"

text \<open>
  \<open>if (path?.length) change["p"] = path; else delete change["p"];\<close>
\<close>

definition setPath :: "segment list option \<Rightarrow> 'a change \<Rightarrow> 'a change" where
  "setPath path ch =
     (case path of
        None \<Rightarrow> Change None (ch_f ch) (ch_a ch) (ch_c ch)
      | Some q \<Rightarrow> Change (if q \<noteq> [] then Some q else None) (ch_f ch) (ch_a ch) (ch_c ch))"

text \<open>
  The first argument of \<open>consolidateChanges\<close> is an array of changes or a single change
  object (\<open>Array.isArray\<close>); the second, \<open>prefixPath\<close>, is optional.
\<close>

datatype 'a changes_arg = Single "'a change" | Multiple "'a change list"

definition consolidateChanges :: "'a changes_arg \<Rightarrow> segment list option \<Rightarrow> 'a change" where
  "consolidateChanges arg prefixPath =
     (let changes = (case arg of Single ch \<Rightarrow> [ch] | Multiple chs \<Rightarrow> chs);
          (change, path) =
            (if length changes = 1 then (hd changes, ch_p (hd changes))
             else
               (let commonPrefix = findCommonPrefix changes;
                    numCommonElements = length commonPrefix
                in if numCommonElements \<noteq> 0
                   then (Change None None None
                           (Some (map (stripCommonPrefix numCommonElements) changes)),
                         Some commonPrefix)
                   else (Change None None None (Some (map zapEmptyPath changes)), None)));
          change1 = unnestSingleChildren (setPath path change)
      in case prefixPath of
           None \<Rightarrow> change1
         | Some pre \<Rightarrow> if pre \<noteq> [] then addPathPrefix change1 pre else change1)"

subsection \<open>matchChange\<close>

text \<open>
  The first loop of \<open>matchChange\<close>, over the change's own path, consuming \<open>matchPath\<close>
  with \<open>shift()\<close>. The result is \<open>Some b\<close> when the loop returns \<open>b\<close>, and \<open>None\<close>
  when it runs to its end; the second component is what is left of \<open>matchPath\<close>.
  \<open>shift()\<close> on an empty array gives \<open>undefined\<close>, which no path element equals.
\<close>

fun matchChange_path :: "segment list \<Rightarrow> segment list \<Rightarrow> bool option \<times> segment list" where
  "matchChange_path [] matchPath = (None, matchPath)"
| "matchChange_path (pathElement # rest) [] = (Some False, [])"
| "matchChange_path (pathElement # rest) (m # matchPath) =
     (if pathElement \<noteq> m then (Some False, matchPath)
      else if matchPath = [] then (Some True, matchPath)
      else matchChange_path rest matchPath)"

fun matchChange :: "'a change \<Rightarrow> segment list \<Rightarrow> bool" where
  "matchChange (Change p f a c) matchPath =
     (case matchChange_path (case p of None \<Rightarrow> [] | Some q \<Rightarrow> q) matchPath of
        (Some b, rest) \<Rightarrow> b
      | (None, rest) \<Rightarrow>
          list_ex (\<lambda>subChange. matchChange subChange rest)
            (case c of None \<Rightarrow> [] | Some cs \<Rightarrow> cs))"

section \<open>ChangeCollector.concat\<close>

datatype 'a collector =
  ChangeCollector (parentCollector: "'a collector option")
                  (collectorPath: "segment list option")
                  (forwardChanges: "'a change list option")
                  (rollbackChanges: "'a change list option")

definition fromChangeArrays :: "'a change list \<Rightarrow> 'a change list \<Rightarrow> 'a collector" where
  "fromChangeArrays fwd rb = ChangeCollector None None (Some fwd) (Some rb)"

definition hasChange :: "'a collector \<Rightarrow> bool" where
  "hasChange col = (case forwardChanges col of None \<Rightarrow> False | Some xs \<Rightarrow> xs \<noteq> [])"

definition hasRollbackChange :: "'a collector \<Rightarrow> bool" where
  "hasRollbackChange col = (case rollbackChanges col of None \<Rightarrow> False | Some xs \<Rightarrow> xs \<noteq> [])"

text \<open>
  The \<open>for (const other of others)\<close> loop of \<open>concat\<close>: \<open>push(...xs)\<close> appends,
  \<open>splice(0, 0, ...xs)\<close> inserts at the front.
\<close>

fun concat_loop ::
  "'a collector list \<Rightarrow> 'a change list \<Rightarrow> 'a change list \<Rightarrow> 'a change list \<times> 'a change list"
where
  "concat_loop [] fwd rb = (fwd, rb)"
| "concat_loop (other # others) fwd rb =
     concat_loop others
       (if hasChange other then fwd @ the (forwardChanges other) else fwd)
       (if hasRollbackChange other then the (rollbackChanges other) @ rb else rb)"

definition concat_collectors :: "'a collector \<Rightarrow> 'a collector list \<Rightarrow> 'a collector" where
  "concat_collectors self others =
     (let fwd = (if hasChange self then the (forwardChanges self) else []);
          rb = (if hasRollbackChange self then the (rollbackChanges self) else []);
          (fwd1, rb1) = concat_loop others fwd rb
      in fromChangeArrays fwd1 rb1)"

section \<open>Plain objects used as tables\<close>

text \<open>
  The source keeps several tables in plain objects (\<open>{}\<close> or an object literal):
  \<open>changeFunctions\<close>, \<open>undoStacks\<close>, \<open>glyphMadeOf\<close>, \<open>glyphUsedBy\<close>. Reading
  \<open>table[key]\<close> gives the table's own entry when it has one, and otherwise the member
  that every plain object inherits from \<open>Object.prototype\<close> when \<open>key\<close> is the name of
  one; only for the remaining keys the result is \<open>undefined\<close>. The names are those of
  the own properties of \<open>Object.prototype\<close> in the ECMAScript standard (with its
  annex B). Each of these members is a function or an object, so it is truthy and
  differs from \<open>undefined\<close>.
\<close>

definition objectPrototypeNames :: "string list" where
  "objectPrototypeNames =
     [''constructor'', ''hasOwnProperty'', ''isPrototypeOf'', ''propertyIsEnumerable'',
      ''toLocaleString'', ''toString'', ''valueOf'', ''__proto__'',
      ''__defineGetter__'', ''__defineSetter__'', ''__lookupGetter__'', ''__lookupSetter__'']"

datatype 'v slot = Missing | Own 'v | Inherited

definition plainObjectGet :: "(string \<Rightarrow> 'v option) \<Rightarrow> string \<Rightarrow> 'v slot" where
  "plainObjectGet table key =
     (case table key of
        Some v \<Rightarrow> Own v
      | None \<Rightarrow> if key \<in> set objectPrototypeNames then Inherited else Missing)"

section \<open>applyChange\<close>

text \<open>
  The document is a graph of JavaScript objects that \<open>applyChange\<close> mutates in place, so
  it is a store from addresses to objects, and a value is a primitive, a reference into
  the store, or a function or object of the JavaScript environment that is not part of
  the document (\<open>Builtin\<close>, by name). An address that was never allocated holds the
  empty object.
\<close>

type_synonym addr = nat

datatype val =
  Undefined | Null | Bool bool | Num int | Str string | Ref addr | Builtin string

datatype obj = Obj "(string \<times> val) list" | Arr "val list"

type_synonym heap = "addr \<Rightarrow> obj"

datatype error = InvalidChangePath | TypeError

text \<open>A property name that is a canonical array index (\<open>"0"\<close>, \<open>"17"\<close>; not \<open>"017"\<close>).\<close>

definition digitValue :: "char \<Rightarrow> nat option" where
  "digitValue ch =
     (let n = (of_char ch :: nat) in if 48 \<le> n \<and> n \<le> 57 then Some (n - 48) else None)"

fun parseDigits :: "string \<Rightarrow> nat \<Rightarrow> nat option" where
  "parseDigits [] acc = Some acc"
| "parseDigits (ch # rest) acc =
     (case digitValue ch of None \<Rightarrow> None | Some d \<Rightarrow> parseDigits rest (10 * acc + d))"

definition arrayIndexOfKey :: "string \<Rightarrow> nat option" where
  "arrayIndexOfKey k =
     (if k = [] then None
      else if hd k = CHR ''0'' \<and> tl k \<noteq> [] then None
      else parseDigits k 0)"

definition indexOfSegment :: "segment \<Rightarrow> nat option" where
  "indexOfSegment s = (case s of Index n \<Rightarrow> Some n | Key k \<Rightarrow> arrayIndexOfKey k)"

text \<open>
  The own properties of an object, an array and a string; \<open>None\<close> when \<open>s\<close> is not the
  key of an own property (an own property may hold \<open>undefined\<close>).
\<close>

definition objectOwn :: "(string \<times> val) list \<Rightarrow> segment \<Rightarrow> val option" where
  "objectOwn kvs s =
     (case s of
        Key k \<Rightarrow> map_of kvs k
      | Index n \<Rightarrow>
          (case find (\<lambda>(k, v). arrayIndexOfKey k = Some n) kvs of
             None \<Rightarrow> None
           | Some (k, v) \<Rightarrow> Some v))"

definition arrayOwn :: "val list \<Rightarrow> segment \<Rightarrow> val option" where
  "arrayOwn xs s =
     (if s = Key ''length'' then Some (Num (int (length xs)))
      else case indexOfSegment s of
             None \<Rightarrow> None
           | Some n \<Rightarrow> if n < length xs then Some (xs ! n) else None)"

definition stringOwn :: "string \<Rightarrow> segment \<Rightarrow> val option" where
  "stringOwn str s =
     (if s = Key ''length'' then Some (Num (int (length str)))
      else case indexOfSegment s of
             None \<Rightarrow> None
           | Some n \<Rightarrow> if n < length str then Some (Str [str ! n]) else None)"

text \<open>
  \<open>subject[pathElement]\<close>. Reading a property of \<open>undefined\<close> or \<open>null\<close> throws. A key
  that is not an own property is looked up in the prototype chain of the subject. What
  the chain holds depends on the class of the object (the glyph and path classes are
  not part of these sources) and on the built-in prototypes of the JavaScript
  environment, so it is the parameter \<open>proto\<close>: the inherited member of the subject for
  that key, \<open>Undefined\<close> when there is none. The properties of a \<open>Builtin\<close> and of
  numbers and booleans come from \<open>proto\<close> alone.
\<close>

type_synonym prototypes = "heap \<Rightarrow> val \<Rightarrow> segment \<Rightarrow> val"

definition getItem :: "prototypes \<Rightarrow> heap \<Rightarrow> val \<Rightarrow> segment \<Rightarrow> error + val" where
  "getItem proto h subject pathElement =
     (case subject of
        Undefined \<Rightarrow> Inl TypeError
      | Null \<Rightarrow> Inl TypeError
      | Bool b \<Rightarrow> Inr (proto h subject pathElement)
      | Num n \<Rightarrow> Inr (proto h subject pathElement)
      | Builtin n \<Rightarrow> Inr (proto h subject pathElement)
      | Str str \<Rightarrow>
          Inr (case stringOwn str pathElement of
                 Some v \<Rightarrow> v
               | None \<Rightarrow> proto h subject pathElement)
      | Ref r \<Rightarrow>
          (case h r of
             Obj kvs \<Rightarrow>
               Inr (case objectOwn kvs pathElement of
                      Some v \<Rightarrow> v
                    | None \<Rightarrow> proto h subject pathElement)
           | Arr xs \<Rightarrow>
               Inr (case arrayOwn xs pathElement of
                      Some v \<Rightarrow> v
                    | None \<Rightarrow> proto h subject pathElement)))"

text \<open>
  The prototype chain of a document in which every object is a plain object: the
  members of \<open>Object.prototype\<close>, each an opaque value.
\<close>

definition plainObjectPrototype :: prototypes where
  "plainObjectPrototype h subject pathElement =
     (case pathElement of
        Key k \<Rightarrow>
          if k \<in> set objectPrototypeNames then Builtin (''Object.prototype.'' @ k)
          else Undefined
      | Index n \<Rightarrow> Undefined)"

text \<open>The \<open>for (const pathElement of path)\<close> loop of \<open>applyChange\<close>.\<close>

fun descend :: "prototypes \<Rightarrow> heap \<Rightarrow> val \<Rightarrow> segment list \<Rightarrow> error + val" where
  "descend proto h subject [] = Inr subject"
| "descend proto h subject (pathElement # rest) =
     (case getItem proto h subject pathElement of
        Inl e \<Rightarrow> Inl e
      | Inr s \<Rightarrow> if s = Undefined then Inl InvalidChangePath else descend proto h s rest)"

text \<open>
  The table \<open>changeFunctions\<close>, a plain object literal with ten entries.
  \<open>changeFunctions[functionName]\<close> is one of the ten, or a member inherited from
  \<open>Object.prototype\<close>, or \<open>undefined\<close>; calling \<open>undefined\<close> throws a \<open>TypeError\<close>.
  What the call of a member does with the subject, the arguments and the store is the
  parameter \<open>impl\<close>: the bodies of the ten entries assign and delete JavaScript
  properties, call \<open>Array.prototype.splice\<close> and call methods of the path class, which
  is not part of these sources, and the inherited members are built-ins.
\<close>

type_synonym changeFunc = "heap \<Rightarrow> val \<Rightarrow> val list \<Rightarrow> error + heap"

definition changeFunctionNames :: "string list" where
  "changeFunctionNames =
     [''='', ''d'', ''-'', ''+'', '':'',
      ''=xy'', ''insertContour'', ''deleteContour'', ''deletePoint'', ''insertPoint'']"

definition changeFunctions :: "(string \<Rightarrow> changeFunc) \<Rightarrow> string \<Rightarrow> changeFunc option" where
  "changeFunctions impl name =
     (if name \<in> set changeFunctionNames \<or> name \<in> set objectPrototypeNames
      then Some (impl name) else None)"

text \<open>The \<open>if (functionName)\<close> statement of \<open>applyChange\<close>.\<close>

definition callChangeFunction ::
  "(string \<Rightarrow> changeFunc) \<Rightarrow> heap \<Rightarrow> val \<Rightarrow> string option \<Rightarrow> val list option \<Rightarrow> error + heap"
where
  "callChangeFunction impl h subject functionName a =
     (if falsyName functionName then Inr h
      else case changeFunctions impl (the functionName) of
             None \<Rightarrow> Inl TypeError
           | Some changeFunc \<Rightarrow>
               changeFunc h subject (case a of None \<Rightarrow> [] | Some args \<Rightarrow> args))"

fun applyChange ::
  "(string \<Rightarrow> changeFunc) \<Rightarrow> prototypes \<Rightarrow> heap \<Rightarrow> val \<Rightarrow> val change \<Rightarrow> error + heap"
and applyChildren ::
  "(string \<Rightarrow> changeFunc) \<Rightarrow> prototypes \<Rightarrow> heap \<Rightarrow> val \<Rightarrow> val change list \<Rightarrow> error + heap"
where
  "applyChange impl proto h subject (Change p f a c) =
     (case descend proto h subject (case p of None \<Rightarrow> [] | Some q \<Rightarrow> q) of
        Inl e \<Rightarrow> Inl e
      | Inr s \<Rightarrow>
          (case callChangeFunction impl h s f a of
             Inl e \<Rightarrow> Inl e
           | Inr h1 \<Rightarrow>
               (case c of
                  None \<Rightarrow> applyChildren impl proto h1 s []
                | Some cs \<Rightarrow> applyChildren impl proto h1 s cs)))"
| "applyChildren impl proto h subject [] = Inr h"
| "applyChildren impl proto h subject (subChange # rest) =
     (case applyChange impl proto h subject subChange of
        Inl e \<Rightarrow> Inl e
      | Inr h1 \<Rightarrow> applyChildren impl proto h1 subject rest)"

section \<open>The undo stack (UndoStack, font controller)\<close>

text \<open>
  The two arrays of \<open>UndoStack\<close>; the top of a stack is the last element of its array
  (\<open>push\<close> appends, \<open>splice(-1, 1)\<close> removes the last element).
\<close>

record 'r UndoStack =
  undoStack :: "'r list"
  redoStack :: "'r list"

definition newUndoStack :: "'r UndoStack" where
  "newUndoStack = \<lparr>undoStack = [], redoStack = []\<rparr>"

definition pushUndoRecord :: "'r \<Rightarrow> 'r UndoStack \<Rightarrow> 'r UndoStack" where
  "pushUndoRecord undoRecord st = \<lparr>undoStack = undoStack st @ [undoRecord], redoStack = []\<rparr>"

definition getTopUndoRedoRecord :: "bool \<Rightarrow> 'r UndoStack \<Rightarrow> 'r option" where
  "getTopUndoRedoRecord isRedo st =
     (let stack = (if \<not> isRedo then undoStack st else redoStack st)
      in if stack \<noteq> [] then Some (last stack) else None)"

text \<open>
  The function \<open>_popUndoRedoRecord(popStack, pushStack)\<close>: the returned value
  (\<open>None\<close> is \<open>undefined\<close>) and the two arrays after the call.
\<close>

definition popUndoRedoRecord_stacks ::
  "'r list \<Rightarrow> 'r list \<Rightarrow> 'r option \<times> 'r list \<times> 'r list" where
  "popUndoRedoRecord_stacks popStack pushStack =
     (if popStack = [] then (None, popStack, pushStack)
      else (Some (last popStack), butlast popStack, pushStack @ [last popStack]))"

definition popUndoRedoRecord :: "bool \<Rightarrow> 'r UndoStack \<Rightarrow> 'r option \<times> 'r UndoStack" where
  "popUndoRedoRecord isRedo st =
     (if \<not> isRedo
      then (case popUndoRedoRecord_stacks (undoStack st) (redoStack st) of
              (r, popStack, pushStack) \<Rightarrow> (r, \<lparr>undoStack = popStack, redoStack = pushStack\<rparr>))
      else (case popUndoRedoRecord_stacks (redoStack st) (undoStack st) of
              (r, popStack, pushStack) \<Rightarrow> (r, \<lparr>undoStack = pushStack, redoStack = popStack\<rparr>)))"

subsection \<open>FontController.undoRedoGlyph\<close>

text \<open>
  An undo record is \<open>{change, rollbackChange, info}\<close>, and \<open>info\<close> is the object
  \<open>{label, undoSelection, redoSelection, location}\<close> that the scene controller builds.
  \<open>reverseUndoInfo\<close> copies each entry under the key \<open>map[k] || k\<close>, which exchanges
  \<open>undoSelection\<close> and \<open>redoSelection\<close> and keeps the other two keys.
\<close>

record undoInfo =
  label :: val
  undoSelection :: val
  redoSelection :: val
  location :: val

record undoRecord =
  change :: "val change"
  rollbackChange :: "val change"
  info :: undoInfo

definition reverseUndoInfo :: "undoInfo \<Rightarrow> undoInfo" where
  "reverseUndoInfo i =
     \<lparr>label = label i, undoSelection = redoSelection i, redoSelection = undoSelection i,
      location = location i\<rparr>"

definition reverseUndoRecord :: "undoRecord \<Rightarrow> undoRecord" where
  "reverseUndoRecord r =
     \<lparr>change = rollbackChange r, rollbackChange = change r, info = reverseUndoInfo (info r)\<rparr>"

text \<open>
  What \<open>undoRedoGlyph\<close> does outside the undo stacks is a sequence of calls: the
  controller's own \<open>applyChange\<close>, the remote font's \<open>editFinal\<close>, and the
  \<open>setTimeout\<close> that schedules \<open>notifyEditListeners("editFinal")\<close>. The controller state
  is the table of undo stacks together with the trace of these calls.

  \<open>undoStacks\<close> is a plain object. In \<open>this.undoStacks[glyphName]?.popUndoRedoRecord(isRedo)\<close>
  the \<open>?.\<close> only guards a receiver that is \<open>undefined\<close>: for a glyph name without a
  stack that names a member of \<open>Object.prototype\<close>, the receiver is that member, it has
  no \<open>popUndoRedoRecord\<close>, and the call throws a \<open>TypeError\<close> before anything else
  happens.
\<close>

datatype effect =
    ControllerApplyChange "val change"
  | FontEditFinal "val change" "val change" val bool
  | ScheduleNotifyEditListeners

record controller =
  undoStacks :: "string \<Rightarrow> undoRecord UndoStack option"
  effects :: "effect list"

definition undoRedoGlyph ::
  "string \<Rightarrow> bool \<Rightarrow> controller \<Rightarrow> error + (undoInfo option \<times> controller)" where
  "undoRedoGlyph glyphName isRedo ctl =
     (case plainObjectGet (undoStacks ctl) glyphName of
        Missing \<Rightarrow> Inr (None, ctl)
      | Inherited \<Rightarrow> Inl TypeError
      | Own st \<Rightarrow>
          (case popUndoRedoRecord isRedo st of
             (popped, st1) \<Rightarrow>
               (let ctl1 = ctl\<lparr>undoStacks := (undoStacks ctl)(glyphName \<mapsto> st1)\<rparr>
                in case popped of
                     None \<Rightarrow> Inr (None, ctl1)
                   | Some r \<Rightarrow>
                       (let r1 = (if isRedo then reverseUndoRecord r else r)
                        in Inr (Some (info r1),
                                ctl1\<lparr>effects := effects ctl1 @
                                  [ControllerApplyChange (rollbackChange r1),
                                   FontEditFinal (rollbackChange r1) (change r1)
                                     (label (info r1)) True,
                                   ScheduleNotifyEditListeners]\<rparr>)))))"

section \<open>Glyph dependencies (FontController.updateGlyphDependencies)\<close>

text \<open>
  \<open>glyphMadeOf\<close> maps a glyph name to the component names that
  \<open>getAllComponentNames()\<close> returned for it, \<open>glyphUsedBy\<close> maps a component name to a
  \<open>Set\<close> of glyph names. Both are plain objects; an own entry that is missing is
  \<open>None\<close>. The glyph is given by its name and the component names it returns.
  The function mutates the two tables in place, and a statement of it may throw, so the
  result is the error, if any, together with the tables as the call leaves them.
\<close>

record dependencies =
  glyphMadeOf :: "string \<Rightarrow> string list option"
  glyphUsedBy :: "string \<Rightarrow> string set option"

definition newDependencies :: dependencies where
  "newDependencies = \<lparr>glyphMadeOf = (\<lambda>k. None), glyphUsedBy = (\<lambda>k. None)\<rparr>"

text \<open>
  The first loop (\<open>// Zap previous used-by data for this glyph\<close>). An inherited member
  passes the test \<open>if (this.glyphUsedBy[componentName])\<close> and has no \<open>delete\<close> method,
  so the call throws.
\<close>

fun zapUsedBy ::
  "string \<Rightarrow> string list \<Rightarrow> (string \<Rightarrow> string set option)
   \<Rightarrow> error option \<times> (string \<Rightarrow> string set option)" where
  "zapUsedBy glyphName [] usedByTable = (None, usedByTable)"
| "zapUsedBy glyphName (componentName # rest) usedByTable =
     (case plainObjectGet usedByTable componentName of
        Missing \<Rightarrow> zapUsedBy glyphName rest usedByTable
      | Own s \<Rightarrow> zapUsedBy glyphName rest (usedByTable(componentName \<mapsto> s - {glyphName}))
      | Inherited \<Rightarrow> (Some TypeError, usedByTable))"

text \<open>
  The second loop. An inherited member fails the test
  \<open>if (!this.glyphUsedBy[componentName])\<close>, so no \<open>Set\<close> is stored, and it has no \<open>add\<close>
  method, so the call throws.
\<close>

fun addUsedBy ::
  "string \<Rightarrow> string list \<Rightarrow> (string \<Rightarrow> string set option)
   \<Rightarrow> error option \<times> (string \<Rightarrow> string set option)" where
  "addUsedBy glyphName [] usedByTable = (None, usedByTable)"
| "addUsedBy glyphName (componentName # rest) usedByTable =
     (case plainObjectGet usedByTable componentName of
        Missing \<Rightarrow> addUsedBy glyphName rest (usedByTable(componentName \<mapsto> {glyphName}))
      | Own s \<Rightarrow> addUsedBy glyphName rest (usedByTable(componentName \<mapsto> insert glyphName s))
      | Inherited \<Rightarrow> (Some TypeError, usedByTable))"

text \<open>
  \<open>for (const componentName of this.glyphMadeOf[glyphName] || [])\<close>: an inherited
  member is truthy and not iterable, so the loop statement throws.
\<close>

definition updateGlyphDependencies ::
  "string \<Rightarrow> string list \<Rightarrow> dependencies \<Rightarrow> error option \<times> dependencies" where
  "updateGlyphDependencies glyphName componentNames deps =
     (case plainObjectGet (glyphMadeOf deps) glyphName of
        Inherited \<Rightarrow> (Some TypeError, deps)
      | previous \<Rightarrow>
          (case zapUsedBy glyphName
                  (case previous of Own names \<Rightarrow> names | _ \<Rightarrow> []) (glyphUsedBy deps) of
             (Some e, usedBy1) \<Rightarrow> (Some e, deps\<lparr>glyphUsedBy := usedBy1\<rparr>)
           | (None, usedBy1) \<Rightarrow>
               (case addUsedBy glyphName componentNames usedBy1 of
                  (err, usedBy2) \<Rightarrow>
                    (err,
                     \<lparr>glyphMadeOf = (glyphMadeOf deps)(glyphName \<mapsto> componentNames),
                      glyphUsedBy = usedBy2\<rparr>))))"

text \<open>The own entries of the two tables, a missing entry read as empty.\<close>

definition madeOf :: "dependencies \<Rightarrow> string \<Rightarrow> string set" where
  "madeOf deps b = (case glyphMadeOf deps b of None \<Rightarrow> {} | Some names \<Rightarrow> set names)"

definition usedBy :: "dependencies \<Rightarrow> string \<Rightarrow> string set" where
  "usedBy deps a = (case glyphUsedBy deps a of None \<Rightarrow> {} | Some s \<Rightarrow> s)"

definition transposed :: "dependencies \<Rightarrow> bool" where
  "transposed deps = (\<forall>a b. b \<in> usedBy deps a \<longleftrightarrow> a \<in> madeOf deps b)"

text \<open>No recorded component name is the name of a member of \<open>Object.prototype\<close>.\<close>

definition plainNames :: "dependencies \<Rightarrow> bool" where
  "plainNames deps =
     (\<forall>b names. glyphMadeOf deps b = Some names \<longrightarrow>
        set names \<inter> set objectPrototypeNames = {})"

section \<open>Incremental and final sends of an edit (GlyphEditContext, throttleCalls)\<close>

text \<open>
  The remote font receives \<open>editIncremental(change)\<close> and
  \<open>editFinal(change, rollback, label, broadcast)\<close>; \<open>remoteCalls\<close> lists the calls in the
  order they are made. \<open>timers\<close> are the pending \<open>setTimeout\<close> callbacks of the event
  loop, each with its id and the change its closure will send. \<open>lastTime\<close> and
  \<open>timeoutID\<close> are the variables of the closure that \<open>throttleCalls\<close> returns, and
  \<open>throttledEditIncrementalTimeoutID\<close> is the field of the edit context. The clock
  (\<open>Date.now()\<close>) is an argument of each call.
\<close>

datatype remoteCall =
    EditIncremental "val change"
  | EditFinal "val change" "val change" val bool

record editContext =
  baseChangePath :: "segment list option"
  lastTime :: int
  timeoutID :: "nat option"
  throttledEditIncrementalTimeoutID :: "nat option"
  timers :: "(nat \<times> val change) list"
  nextTimerID :: nat
  remoteCalls :: "remoteCall list"

definition newGlyphEditContext :: "segment list option \<Rightarrow> editContext" where
  "newGlyphEditContext basePath =
     \<lparr>baseChangePath = basePath, lastTime = 0, timeoutID = None,
      throttledEditIncrementalTimeoutID = None, timers = [], nextTimerID = 1,
      remoteCalls = []\<rparr>"

text \<open>\<open>clearTimeout(id)\<close>; \<open>clearTimeout(null)\<close> does nothing.\<close>

definition clearTimeout :: "nat option \<Rightarrow> editContext \<Rightarrow> editContext" where
  "clearTimeout tid ctx =
     (case tid of
        None \<Rightarrow> ctx
      | Some i \<Rightarrow> ctx\<lparr>timers := filter (\<lambda>(j, c). j \<noteq> i) (timers ctx)\<rparr>)"

text \<open>The function wrapped by \<open>throttleCalls\<close>: \<open>fontController.font.editIncremental(change)\<close>.\<close>

definition sendIncremental :: "val change \<Rightarrow> editContext \<Rightarrow> editContext" where
  "sendIncremental c ctx = ctx\<lparr>remoteCalls := remoteCalls ctx @ [EditIncremental c]\<rparr>"

text \<open>
  The wrapper that \<open>throttleCalls(func, minTime)\<close> returns, called at time \<open>now\<close>; its
  result is the returned \<open>timeoutID\<close>.
\<close>

definition throttledEditIncremental ::
  "int \<Rightarrow> int \<Rightarrow> val change \<Rightarrow> editContext \<Rightarrow> nat option \<times> editContext" where
  "throttledEditIncremental minTime now c ctx =
     (let ctx1 = (if timeoutID ctx \<noteq> None
                  then (clearTimeout (timeoutID ctx) ctx)\<lparr>timeoutID := None\<rparr>
                  else ctx)
      in if now - lastTime ctx1 > minTime
         then (let ctx2 = (sendIncremental c ctx1)\<lparr>lastTime := now\<rparr>
               in (timeoutID ctx2, ctx2))
         else (let i = nextTimerID ctx1;
                   ctx2 = ctx1\<lparr>timers := timers ctx1 @ [(i, c)], nextTimerID := Suc i,
                               timeoutID := Some i\<rparr>
               in (timeoutID ctx2, ctx2)))"

text \<open>
  A pending timer fires: the callback sets the closure's \<open>timeoutID\<close> to \<open>null\<close> and
  calls the wrapped function. A timer that is not pending does not fire.
\<close>

definition timerFires :: "nat \<Rightarrow> editContext \<Rightarrow> editContext" where
  "timerFires i ctx =
     (case map_of (timers ctx) i of
        None \<Rightarrow> ctx
      | Some c \<Rightarrow>
          sendIncremental c
            (ctx\<lparr>timers := filter (\<lambda>(j, c). j \<noteq> i) (timers ctx), timeoutID := None\<rparr>))"

text \<open>
  \<open>GlyphEditContext.editIncremental\<close> and \<open>editFinal\<close>, from the call of
  \<open>consolidateChanges\<close> to the call of the remote font. The notifications of listeners
  and \<open>glyphChanged\<close>, before and after, do not touch the timers or the remote font; the
  push of the undo record after \<open>editFinal\<close> is \<open>pushUndoRecord\<close> above.
\<close>

definition editIncremental ::
  "int \<Rightarrow> val changes_arg \<Rightarrow> bool \<Rightarrow> editContext \<Rightarrow> editContext" where
  "editIncremental now chg mayDrop ctx =
     (let c = consolidateChanges chg (baseChangePath ctx)
      in if mayDrop
         then (case throttledEditIncremental 50 now c ctx of
                 (tid, ctx1) \<Rightarrow> ctx1\<lparr>throttledEditIncrementalTimeoutID := tid\<rparr>)
         else sendIncremental c (clearTimeout (throttledEditIncrementalTimeoutID ctx) ctx))"

definition editFinal ::
  "val changes_arg \<Rightarrow> val changes_arg \<Rightarrow> undoInfo \<Rightarrow> bool \<Rightarrow> editContext \<Rightarrow> editContext"
where
  "editFinal chg rollback undoInf broadcast ctx =
     (let c = consolidateChanges chg (baseChangePath ctx);
          rb = consolidateChanges rollback (baseChangePath ctx)
      in ctx\<lparr>remoteCalls := remoteCalls ctx @ [EditFinal c rb (label undoInf) broadcast]\<rparr>)"

section \<open>Normal forms of unnestSingleChildren\<close>

text \<open>
  The shape of every result of \<open>unnestSingleChildren\<close>: a node without children is
  \<open>{}\<close> or has a function name, and a node with children has at least two, each of
  them in normal form and not empty.
\<close>

fun normalForm :: "'a change \<Rightarrow> bool" where
  "normalForm (Change p f a None) = (\<not> falsyName f \<or> (p = None \<and> f = None \<and> a = None))"
| "normalForm (Change p f a (Some cs)) =
     (2 \<le> length cs \<and> list_all (\<lambda>x. normalForm x \<and> isNotEmpty x) cs)"

section \<open>Consolidation: unnesting is idempotent\<close>

lemma normalForm_fixed: "normalForm ch \<Longrightarrow> unnestSingleChildren ch = ch"
proof (induction ch rule: unnestSingleChildren.induct)
  case (1 p f a)
  then show ?case by (auto simp: emptyChange_def falsyName_def)
next
  case (2 p f a cs)
  from "2.prems" have len: "2 \<le> length cs"
    and all: "\<forall>x\<in>set cs. normalForm x \<and> isNotEmpty x"
    by (auto simp: list_all_iff)
  have "map unnestSingleChildren cs = cs"
    using "2.IH" all by (simp add: map_idI)
  moreover have "filter isNotEmpty cs = cs"
    using all by simp
  ultimately have eq: "filter isNotEmpty (map unnestSingleChildren cs) = cs"
    by simp
  obtain x y rest where cs: "cs = x # y # rest"
    using len by (cases cs; cases "tl cs") auto
  show ?case
    unfolding unnestSingleChildren.simps eq by (simp add: cs)
qed

lemma normalForm_repath:
  "normalForm ch \<Longrightarrow> isNotEmpty ch \<Longrightarrow> normalForm (Change q (ch_f ch) (ch_a ch) (ch_c ch))"
  by (cases ch; cases "ch_c ch") (auto simp: isNotEmpty_def falsyName_def)

lemma isNotEmpty_repath:
  "normalForm ch \<Longrightarrow> isNotEmpty ch \<Longrightarrow> isNotEmpty (Change q (ch_f ch) (ch_a ch) (ch_c ch))"
  by (cases ch; cases "ch_c ch") (auto simp: isNotEmpty_def falsyName_def)

lemma unnestSingleChildren_normalForm: "normalForm (unnestSingleChildren ch)"
proof (induction ch rule: unnestSingleChildren.induct)
  case (1 p f a)
  then show ?case by (simp add: emptyChange_def)
next
  case (2 p f a cs)
  let ?children = "filter isNotEmpty (map unnestSingleChildren cs)"
  have kids: "normalForm x \<and> isNotEmpty x" if "x \<in> set ?children" for x
    using that "2.IH" by auto
  show ?case
  proof (cases ?children)
    case Nil
    show ?thesis
      unfolding unnestSingleChildren.simps Nil by (simp add: emptyChange_def)
  next
    case (Cons child rest)
    note outer = Cons
    have child: "normalForm child" "isNotEmpty child"
      using kids [of child] by (simp_all add: outer)
    show ?thesis
    proof (cases rest)
      case Nil
      show ?thesis
        unfolding unnestSingleChildren.simps outer Nil list.case Let_def
        by (rule normalForm_repath [OF child])
    next
      case (Cons child2 rest2)
      have "normalForm x \<and> isNotEmpty x" if "x \<in> set (child # child2 # rest2)" for x
        using kids [of x] that by (simp only: outer Cons)
      then show ?thesis
        unfolding unnestSingleChildren.simps outer Cons list.case
        by (simp add: list_all_iff)
    qed
  qed
qed

lemma unnestSingleChildren_idem:
  "unnestSingleChildren (unnestSingleChildren ch) = unnestSingleChildren ch"
  by (rule normalForm_fixed) (rule unnestSingleChildren_normalForm)

lemma unnestSingleChildren_path:
  assumes "ch_p ch \<noteq> Some []"
  shows "ch_p (unnestSingleChildren ch) \<noteq> Some []"
proof (cases ch rule: unnestSingleChildren.cases)
  case (1 p f a)
  with assms show ?thesis by (simp add: emptyChange_def)
next
  case (2 p f a cs)
  with assms show ?thesis
    by (simp add: emptyChange_def Let_def split: list.split)
qed

lemma setPath_path: "ch_p (setPath path ch) \<noteq> Some []"
  by (auto simp: setPath_def split: option.splits)

lemma setPath_own: "ch_p ch \<noteq> Some [] \<Longrightarrow> setPath (ch_p ch) ch = ch"
  by (cases ch) (auto simp: setPath_def split: option.splits)

lemma consolidateChanges_single:
  "consolidateChanges (Multiple [x]) None = unnestSingleChildren (setPath (ch_p x) x)"
  by (simp add: consolidateChanges_def)

text \<open>
  C7. Consolidation is idempotent on singletons: consolidating the list that holds the
  consolidation of a single raw change gives that consolidation again. This holds for
  every raw change, in particular for every one with a non-empty operation.
\<close>

theorem consolidateChanges_singleton_idempotent:
  "consolidateChanges (Multiple [consolidateChanges (Multiple [x]) None]) None
   = consolidateChanges (Multiple [x]) None"
proof -
  let ?y = "unnestSingleChildren (setPath (ch_p x) x)"
  have "ch_p ?y \<noteq> Some []"
    by (rule unnestSingleChildren_path) (rule setPath_path)
  then have "setPath (ch_p ?y) ?y = ?y" by (rule setPath_own)
  then show ?thesis
    by (simp add: consolidateChanges_single unnestSingleChildren_idem)
qed

section \<open>The empty change\<close>

text \<open>
  C6. Consolidating the single empty raw change \<open>{}\<close>, given in an array or by itself,
  yields the empty node, which has no path, no operation and no children; applying the
  empty node to any subject of any document, whatever the registered functions and the
  prototypes are, succeeds and leaves the store unchanged.
\<close>

theorem consolidateChanges_empty_noop:
  "consolidateChanges (Multiple [emptyChange]) None = (emptyChange :: val change)
   \<and> consolidateChanges (Single emptyChange) None = (emptyChange :: val change)
   \<and> ch_p (emptyChange :: val change) = None
   \<and> ch_f (emptyChange :: val change) = None
   \<and> ch_c (emptyChange :: val change) = None
   \<and> applyChange impl proto h subject emptyChange = Inr h"
  by (simp add: consolidateChanges_def emptyChange_def setPath_def falsyName_def
        callChangeFunction_def)

section \<open>Undo and redo\<close>

lemma popUndoRedoRecord_undo:
  "undoStack st \<noteq> [] \<Longrightarrow>
   popUndoRedoRecord False st =
     (Some (last (undoStack st)),
      \<lparr>undoStack = butlast (undoStack st), redoStack = redoStack st @ [last (undoStack st)]\<rparr>)"
  by (simp add: popUndoRedoRecord_def popUndoRedoRecord_stacks_def)

lemma popUndoRedoRecord_redo:
  "redoStack st \<noteq> [] \<Longrightarrow>
   popUndoRedoRecord True st =
     (Some (last (redoStack st)),
      \<lparr>undoStack = undoStack st @ [last (redoStack st)], redoStack = butlast (redoStack st)\<rparr>)"
  by (simp add: popUndoRedoRecord_def popUndoRedoRecord_stacks_def)

lemma popUndoRedoRecord_empty:
  "(if isRedo then redoStack st else undoStack st) = [] \<Longrightarrow>
   popUndoRedoRecord isRedo (st :: 'r UndoStack) = (None, st)"
  by (cases isRedo) (simp_all add: popUndoRedoRecord_def popUndoRedoRecord_stacks_def)

text \<open>
  C8. In every state of an undo stack: pushing a record appends it to the undo stack and
  clears the redo stack; popping from a side that is not empty removes the top record of
  that side and pushes the same record onto the other side, so that an undo followed by
  a redo (and a redo followed by an undo) returns the same record twice and restores the
  state. In particular, after a push of \<open>r\<close> onto any stack (the empty one included),
  the undo pop returns \<open>r\<close> and leaves \<open>r\<close> on top of the redo side, and the redo pop
  that follows returns \<open>r\<close> again and leaves \<open>r\<close> on top of the undo side.
\<close>

theorem undo_stack_transitions:
  fixes st :: "'r UndoStack"
  shows
  "undoStack (pushUndoRecord r st) = undoStack st @ [r]
   \<and> redoStack (pushUndoRecord r st) = []
   \<and> getTopUndoRedoRecord False (pushUndoRecord r st) = Some r
   \<and> getTopUndoRedoRecord True (pushUndoRecord r st) = None
   \<and> (undoStack st \<noteq> [] \<longrightarrow>
        popUndoRedoRecord False st =
          (Some (last (undoStack st)),
           \<lparr>undoStack = butlast (undoStack st),
            redoStack = redoStack st @ [last (undoStack st)]\<rparr>)
        \<and> popUndoRedoRecord True (snd (popUndoRedoRecord False st))
            = (Some (last (undoStack st)), st))
   \<and> (redoStack st \<noteq> [] \<longrightarrow>
        popUndoRedoRecord True st =
          (Some (last (redoStack st)),
           \<lparr>undoStack = undoStack st @ [last (redoStack st)],
            redoStack = butlast (redoStack st)\<rparr>)
        \<and> popUndoRedoRecord False (snd (popUndoRedoRecord True st))
            = (Some (last (redoStack st)), st))
   \<and> fst (popUndoRedoRecord False (pushUndoRecord r st)) = Some r
   \<and> getTopUndoRedoRecord True (snd (popUndoRedoRecord False (pushUndoRecord r st))) = Some r
   \<and> popUndoRedoRecord True (snd (popUndoRedoRecord False (pushUndoRecord r st)))
       = (Some r, pushUndoRecord r st)
   \<and> getTopUndoRedoRecord False
        (snd (popUndoRedoRecord True (snd (popUndoRedoRecord False (pushUndoRecord r st)))))
       = Some r"
proof -
  have push: "undoStack (pushUndoRecord r st) = undoStack st @ [r]"
    "redoStack (pushUndoRecord r st) = []"
    by (simp_all add: pushUndoRecord_def)
  have top: "getTopUndoRedoRecord False (pushUndoRecord r st) = Some r"
    "getTopUndoRedoRecord True (pushUndoRecord r st) = None"
    by (simp_all add: getTopUndoRedoRecord_def pushUndoRecord_def)
  have undo_redo: "popUndoRedoRecord True (snd (popUndoRedoRecord False s)) = (Some (last (undoStack s)), s)"
    if "undoStack s \<noteq> []" for s :: "'r UndoStack"
    using that by (simp add: popUndoRedoRecord_undo popUndoRedoRecord_redo)
  have redo_undo: "popUndoRedoRecord False (snd (popUndoRedoRecord True s)) = (Some (last (redoStack s)), s)"
    if "redoStack s \<noteq> []" for s :: "'r UndoStack"
    using that by (simp add: popUndoRedoRecord_undo popUndoRedoRecord_redo)
  have p1: "popUndoRedoRecord False (pushUndoRecord r st)
              = (Some r, \<lparr>undoStack = undoStack st, redoStack = [r]\<rparr>)"
    by (simp add: popUndoRedoRecord_undo push)
  have p2: "popUndoRedoRecord True \<lparr>undoStack = undoStack st, redoStack = [r]\<rparr>
              = (Some r, pushUndoRecord r st)"
    by (simp add: popUndoRedoRecord_redo pushUndoRecord_def)
  show ?thesis
    using push top undo_redo [of st] redo_undo [of st]
      popUndoRedoRecord_undo [of st] popUndoRedoRecord_redo [of st]
    by (simp add: p1 p2 getTopUndoRedoRecord_def)
qed

text \<open>The transitions at concrete stacks of numbers.\<close>

theorem undo_stack_transitions_witness:
  "popUndoRedoRecord False (pushUndoRecord (7::nat) \<lparr>undoStack = [3], redoStack = [5]\<rparr>)
     = (Some 7, \<lparr>undoStack = [3], redoStack = [7]\<rparr>)
   \<and> popUndoRedoRecord True \<lparr>undoStack = [3], redoStack = [7::nat]\<rparr>
     = (Some 7, \<lparr>undoStack = [3, 7], redoStack = []\<rparr>)
   \<and> popUndoRedoRecord True (snd (popUndoRedoRecord False \<lparr>undoStack = [3, 7::nat], redoStack = []\<rparr>))
     = (Some 7, \<lparr>undoStack = [3, 7], redoStack = []\<rparr>)
   \<and> popUndoRedoRecord False (snd (popUndoRedoRecord True \<lparr>undoStack = [3], redoStack = [7::nat]\<rparr>))
     = (Some 7, \<lparr>undoStack = [3], redoStack = [7]\<rparr>)
   \<and> popUndoRedoRecord True
        (snd (popUndoRedoRecord False (pushUndoRecord (7::nat) newUndoStack)))
     = (Some 7, pushUndoRecord 7 newUndoStack)"
  using undo_stack_transitions [of "7::nat" "\<lparr>undoStack = [3], redoStack = [5]\<rparr>"]
    undo_stack_transitions [of "7::nat" "\<lparr>undoStack = [3, 7], redoStack = []\<rparr>"]
    undo_stack_transitions [of "7::nat" "\<lparr>undoStack = [3], redoStack = [7]\<rparr>"]
    undo_stack_transitions [of "7::nat" newUndoStack]
  by (simp add: pushUndoRecord_def newUndoStack_def)

section \<open>ChangeCollector.concat: the order of the lists\<close>

lemma concat_loop_lists:
  "concat_loop others fwd rb =
     (fwd @ concat (map (\<lambda>col. case forwardChanges col of None \<Rightarrow> [] | Some xs \<Rightarrow> xs) others),
      concat (map (\<lambda>col. case rollbackChanges col of None \<Rightarrow> [] | Some xs \<Rightarrow> xs) (rev others)) @ rb)"
proof (induction others arbitrary: fwd rb)
  case Nil
  show ?case by simp
next
  case (Cons other others)
  have f: "(if hasChange other then fwd @ the (forwardChanges other) else fwd)
            = fwd @ (case forwardChanges other of None \<Rightarrow> [] | Some xs \<Rightarrow> xs)"
    by (simp add: hasChange_def split: option.splits)
  have r: "(if hasRollbackChange other then the (rollbackChanges other) @ rb else rb)
            = (case rollbackChanges other of None \<Rightarrow> [] | Some xs \<Rightarrow> xs) @ rb"
    by (simp add: hasRollbackChange_def split: option.splits)
  show ?case
    unfolding concat_loop.simps f r Cons.IH by simp
qed

text \<open>
  C3 (as the code has it). For every collector and every list of other collectors,
  \<open>concat\<close> gives a collector without parent and path whose forward changes are the
  collector's own followed by the others' in argument order, and whose rollback changes
  are the others' in reverse argument order (the last argument's first, the first
  argument's last among the others), followed by the collector's own.
\<close>

theorem concat_collectors_lists:
  "forwardChanges (concat_collectors self others) =
     Some ((case forwardChanges self of None \<Rightarrow> [] | Some xs \<Rightarrow> xs)
           @ concat (map (\<lambda>col. case forwardChanges col of None \<Rightarrow> [] | Some xs \<Rightarrow> xs) others))
   \<and> rollbackChanges (concat_collectors self others) =
     Some (concat (map (\<lambda>col. case rollbackChanges col of None \<Rightarrow> [] | Some xs \<Rightarrow> xs)
                    (rev others))
           @ (case rollbackChanges self of None \<Rightarrow> [] | Some xs \<Rightarrow> xs))
   \<and> parentCollector (concat_collectors self others) = None
   \<and> collectorPath (concat_collectors self others) = None"
proof -
  have f: "(if hasChange self then the (forwardChanges self) else [])
            = (case forwardChanges self of None \<Rightarrow> [] | Some xs \<Rightarrow> xs)"
    by (simp add: hasChange_def split: option.splits)
  have r: "(if hasRollbackChange self then the (rollbackChanges self) else [])
            = (case rollbackChanges self of None \<Rightarrow> [] | Some xs \<Rightarrow> xs)"
    by (simp add: hasRollbackChange_def split: option.splits)
  show ?thesis
    unfolding concat_collectors_def f r concat_loop_lists
    by (simp add: fromChangeArrays_def)
qed

text \<open>
  C3 as stated puts the first argument's rollback changes first. With two other
  collectors the rollback list starts with the second one's: the stated order
  (\<open>b\<close>, \<open>c\<close>, \<open>a\<close>) is not the result (\<open>c\<close>, \<open>b\<close>, \<open>a\<close>).
\<close>

theorem concat_collectors_rollback_order:
  "rollbackChanges
     (concat_collectors
        (ChangeCollector None None (Some [Change None (Some ''='') (Some [Str ''a'', Num 1]) None])
           (Some [Change None (Some ''d'') (Some [Str ''a'']) None]))
        [ChangeCollector None None (Some [Change None (Some ''='') (Some [Str ''b'', Num 2]) None])
           (Some [Change None (Some ''d'') (Some [Str ''b'']) None]),
         ChangeCollector None None (Some [Change None (Some ''='') (Some [Str ''c'', Num 3]) None])
           (Some [Change None (Some ''d'') (Some [Str ''c'']) None])])
   = Some [Change None (Some ''d'') (Some [Str ''c'']) None,
           Change None (Some ''d'') (Some [Str ''b'']) None,
           Change None (Some ''d'') (Some [Str ''a'']) None]
   \<and> rollbackChanges
     (concat_collectors
        (ChangeCollector None None (Some [Change None (Some ''='') (Some [Str ''a'', Num 1]) None])
           (Some [Change None (Some ''d'') (Some [Str ''a'']) None]))
        [ChangeCollector None None (Some [Change None (Some ''='') (Some [Str ''b'', Num 2]) None])
           (Some [Change None (Some ''d'') (Some [Str ''b'']) None]),
         ChangeCollector None None (Some [Change None (Some ''='') (Some [Str ''c'', Num 3]) None])
           (Some [Change None (Some ''d'') (Some [Str ''c'']) None])])
   \<noteq> Some [Change None (Some ''d'') (Some [Str ''b'']) None,
           Change None (Some ''d'') (Some [Str ''c'']) None,
           Change None (Some ''d'') (Some [Str ''a'']) None]"
  by (simp add: concat_collectors_def hasChange_def hasRollbackChange_def fromChangeArrays_def)

section \<open>matchChange\<close>

lemma matchChange_glyph_path:
  "matchChange (Change (Some [Key ''glyphs'', Key ''A'']) f a c)
     [Key ''glyphs'', Key ''A'', Key ''path'']
   = list_ex (\<lambda>subChange. matchChange subChange [Key ''path''])
       (case c of None \<Rightarrow> [] | Some cs \<Rightarrow> cs)"
  by simp

lemma matchChange_child:
  "matchChange ch [Key ''path''] =
     (case ch_p ch of
        Some (s # rest) \<Rightarrow> s = Key ''path''
      | _ \<Rightarrow> list_ex (\<lambda>subChange. matchChange subChange [Key ''path''])
               (case ch_c ch of None \<Rightarrow> [] | Some cs \<Rightarrow> cs))"
proof (cases ch)
  case (Change p f a c)
  show ?thesis
  proof (cases p)
    case None
    with Change show ?thesis by simp
  next
    case (Some q)
    with Change show ?thesis by (cases q) simp_all
  qed
qed

text \<open>
  C2 (as the code has it). For a node with path \<open>["glyphs", "A"]\<close> and the target path
  \<open>["glyphs", "A", "path"]\<close>, \<open>matchChange\<close> is true exactly when some child matches
  \<open>["path"]\<close>; a child with a non-empty path matches when its first element is
  \<open>"path"\<close>, and a child without one only through a child of its own. So the result is
  true whenever some child has the path \<open>["path"]\<close>, false when every child has neither a
  path nor children (whatever its operation), and false when the node's path differs
  from the target in its first or second element.
\<close>

theorem matchChange_touches_path:
  "matchChange (Change (Some [Key ''glyphs'', Key ''A'']) f a c)
     [Key ''glyphs'', Key ''A'', Key ''path'']
   = list_ex (\<lambda>subChange. matchChange subChange [Key ''path''])
       (case c of None \<Rightarrow> [] | Some cs \<Rightarrow> cs)
   \<and> matchChange ch [Key ''path''] =
       (case ch_p ch of
          Some (s # rest) \<Rightarrow> s = Key ''path''
        | _ \<Rightarrow> list_ex (\<lambda>subChange. matchChange subChange [Key ''path''])
                 (case ch_c ch of None \<Rightarrow> [] | Some cs \<Rightarrow> cs))
   \<and> ((\<exists>child \<in> set cs. ch_p child = Some [Key ''path'']) \<longrightarrow>
        matchChange (Change (Some [Key ''glyphs'', Key ''A'']) f a (Some cs))
          [Key ''glyphs'', Key ''A'', Key ''path''])
   \<and> ((\<forall>child \<in> set cs. ch_p child = None \<and> ch_c child = None) \<longrightarrow>
        \<not> matchChange (Change (Some [Key ''glyphs'', Key ''A'']) f a (Some cs))
          [Key ''glyphs'', Key ''A'', Key ''path''])
   \<and> (sa \<noteq> Key ''glyphs'' \<longrightarrow>
        \<not> matchChange (Change (Some (sa # resta)) f a c)
          [Key ''glyphs'', Key ''A'', Key ''path''])
   \<and> (sb \<noteq> Key ''A'' \<longrightarrow>
        \<not> matchChange (Change (Some (Key ''glyphs'' # sb # restb)) f a c)
          [Key ''glyphs'', Key ''A'', Key ''path''])"
proof -
  have yes: "matchChange (Change (Some [Key ''glyphs'', Key ''A'']) f a (Some cs))
          [Key ''glyphs'', Key ''A'', Key ''path'']"
    if "child \<in> set cs" "ch_p child = Some [Key ''path'']" for child
  proof -
    have "matchChange child [Key ''path'']"
      using that(2) by (simp add: matchChange_child)
    with that(1) show ?thesis
      unfolding matchChange_glyph_path by (auto simp: list_ex_iff)
  qed
  have no: "\<not> matchChange (Change (Some [Key ''glyphs'', Key ''A'']) f a (Some cs))
          [Key ''glyphs'', Key ''A'', Key ''path'']"
    if "\<forall>child \<in> set cs. ch_p child = None \<and> ch_c child = None"
  proof -
    have "\<not> matchChange child [Key ''path'']" if "child \<in> set cs" for child
      using that \<open>\<forall>child \<in> set cs. ch_p child = None \<and> ch_c child = None\<close>
      by (simp add: matchChange_child)
    then show ?thesis
      unfolding matchChange_glyph_path by (auto simp: list_ex_iff)
  qed
  show ?thesis
    using yes no matchChange_glyph_path [of f a c] matchChange_child [of ch]
    by (intro conjI impI) (auto simp del: matchChange.simps, simp_all)
qed

text \<open>
  A node for glyph \<open>A\<close> with a child at \<open>["path"]\<close>; one whose children only carry
  operations; and nodes whose path leaves the target at the second and at the first
  element.
\<close>

theorem matchChange_touches_path_witness:
  "matchChange
     (Change (Some [Key ''glyphs'', Key ''A'']) None None
        (Some [Change (Some [Key ''xAdvance'']) (Some ''='') None None,
               Change (Some [Key ''path'']) (Some ''=xy'') (Some [Num 0, Num 10, Num 20]) None]))
     [Key ''glyphs'', Key ''A'', Key ''path'']
   \<and> \<not> matchChange
     (Change (Some [Key ''glyphs'', Key ''A'']) None None
        (Some [Change None (Some ''='') (Some [Str ''xAdvance'', Num 500]) None,
               Change None (Some ''d'') (Some [Str ''note'']) None]))
     [Key ''glyphs'', Key ''A'', Key ''path'']
   \<and> \<not> matchChange
     (Change (Some [Key ''glyphs'', Key ''B'']) None None
        (Some [Change (Some [Key ''path'']) (Some ''=xy'') (Some [Num 0, Num 10, Num 20]) None]))
     [Key ''glyphs'', Key ''A'', Key ''path'']
   \<and> \<not> matchChange
     (Change (Some [Key ''glyphMap'', Key ''A'']) None None
        (Some [Change (Some [Key ''path'']) (Some ''=xy'') (Some [Num 0, Num 10, Num 20]) None]))
     [Key ''glyphs'', Key ''A'', Key ''path'']"
  using matchChange_touches_path
      [where cs = "[Change (Some [Key ''xAdvance'']) (Some ''='') None None,
               Change (Some [Key ''path'']) (Some ''=xy'') (Some [Num 0, Num 10, Num 20]) None]"
         and f = None and a = None and sa = "Key ''glyphMap''" and resta = "[Key ''A'']"
         and c = "Some [Change (Some [Key ''path'']) (Some ''=xy'') (Some [Num 0, Num 10, Num 20]) None]"
         and sb = "Key ''B''" and restb = "[]"]
    matchChange_touches_path
      [where cs = "[Change None (Some ''='') (Some [Str ''xAdvance'', Num 500]) None,
               Change None (Some ''d'') (Some [Str ''note'']) None]"
         and f = None and a = None]
  by simp

text \<open>
  C2 as stated also gives true when some child has no path but a direct operation. Such
  a child alone gives false.
\<close>

theorem matchChange_pathless_child:
  "\<not> matchChange
     (Change (Some [Key ''glyphs'', Key ''A'']) None None
        (Some [Change None (Some ''='') (Some [Str ''xAdvance'', Num 500]) None]))
     [Key ''glyphs'', Key ''A'', Key ''path'']"
  by simp

section \<open>The final commit and pending incremental sends\<close>

text \<open>
  \<open>editFinal\<close> leaves every pending timer pending, whereas \<open>editIncremental\<close> with
  \<open>mayDrop = false\<close> cancels the timer whose id the edit context holds.
\<close>

lemma editFinal_timers:
  "timers (editFinal chg rollback undoInfo broadcast ctx) = timers ctx"
  by (simp add: editFinal_def Let_def)

lemma editIncremental_must_send_timers:
  "timers (editIncremental now chg False ctx) =
     (case throttledEditIncrementalTimeoutID ctx of
        None \<Rightarrow> timers ctx
      | Some i \<Rightarrow> filter (\<lambda>(j, c). j \<noteq> i) (timers ctx))"
  by (simp add: editIncremental_def Let_def sendIncremental_def clearTimeout_def
        split: option.splits)

lemma consolidate_at_glyph:
  "consolidateChanges (Single (Change (Some [Key ''xAdvance'']) (Some ''='') (Some [Num n]) None))
     (Some [Key ''glyphs'', Key ''A''])
   = Change (Some [Key ''glyphs'', Key ''A'', Key ''xAdvance'']) (Some ''='') (Some [Num n]) None"
  by (simp add: consolidateChanges_def setPath_def addPathPrefix_def falsyName_def)

text \<open>
  C4 asks that a pending throttled incremental send is flushed or cancelled before the
  final commit is issued. Here an edit sends a first droppable change at time 1000
  (sent at once), a second one at time 1010 (inside the 50 ms window, so a timer is
  set), and then commits: \<open>editFinal\<close> calls the remote font while the timer is still
  pending, and when the timer fires the incremental change of time 1010 reaches the
  remote font after the final commit.
\<close>

theorem editFinal_before_pending_send:
  "editIncremental 1000
     (Single (Change (Some [Key ''xAdvance'']) (Some ''='') (Some [Num 510]) None)) True
     (newGlyphEditContext (Some [Key ''glyphs'', Key ''A'']))
   = \<lparr>baseChangePath = Some [Key ''glyphs'', Key ''A''], lastTime = 1000,
      timeoutID = None, throttledEditIncrementalTimeoutID = None, timers = [],
      nextTimerID = 1,
      remoteCalls =
        [EditIncremental
           (Change (Some [Key ''glyphs'', Key ''A'', Key ''xAdvance'']) (Some ''='')
              (Some [Num 510]) None)]\<rparr>
   \<and> editIncremental 1010
     (Single (Change (Some [Key ''xAdvance'']) (Some ''='') (Some [Num 520]) None)) True
     \<lparr>baseChangePath = Some [Key ''glyphs'', Key ''A''], lastTime = 1000,
      timeoutID = None, throttledEditIncrementalTimeoutID = None, timers = [],
      nextTimerID = 1,
      remoteCalls =
        [EditIncremental
           (Change (Some [Key ''glyphs'', Key ''A'', Key ''xAdvance'']) (Some ''='')
              (Some [Num 510]) None)]\<rparr>
   = \<lparr>baseChangePath = Some [Key ''glyphs'', Key ''A''], lastTime = 1000,
      timeoutID = Some 1, throttledEditIncrementalTimeoutID = Some 1,
      timers =
        [(1, Change (Some [Key ''glyphs'', Key ''A'', Key ''xAdvance'']) (Some ''='')
               (Some [Num 520]) None)],
      nextTimerID = 2,
      remoteCalls =
        [EditIncremental
           (Change (Some [Key ''glyphs'', Key ''A'', Key ''xAdvance'']) (Some ''='')
              (Some [Num 510]) None)]\<rparr>
   \<and> editFinal
     (Single (Change (Some [Key ''xAdvance'']) (Some ''='') (Some [Num 530]) None))
     (Single (Change (Some [Key ''xAdvance'']) (Some ''='') (Some [Num 500]) None))
     \<lparr>label = Str ''drag'', undoSelection = Null, redoSelection = Null,
        location = Null\<rparr> False
     \<lparr>baseChangePath = Some [Key ''glyphs'', Key ''A''], lastTime = 1000,
      timeoutID = Some 1, throttledEditIncrementalTimeoutID = Some 1,
      timers =
        [(1, Change (Some [Key ''glyphs'', Key ''A'', Key ''xAdvance'']) (Some ''='')
               (Some [Num 520]) None)],
      nextTimerID = 2,
      remoteCalls =
        [EditIncremental
           (Change (Some [Key ''glyphs'', Key ''A'', Key ''xAdvance'']) (Some ''='')
              (Some [Num 510]) None)]\<rparr>
   = \<lparr>baseChangePath = Some [Key ''glyphs'', Key ''A''], lastTime = 1000,
      timeoutID = Some 1, throttledEditIncrementalTimeoutID = Some 1,
      timers =
        [(1, Change (Some [Key ''glyphs'', Key ''A'', Key ''xAdvance'']) (Some ''='')
               (Some [Num 520]) None)],
      nextTimerID = 2,
      remoteCalls =
        [EditIncremental
           (Change (Some [Key ''glyphs'', Key ''A'', Key ''xAdvance'']) (Some ''='')
              (Some [Num 510]) None),
         EditFinal
           (Change (Some [Key ''glyphs'', Key ''A'', Key ''xAdvance'']) (Some ''='')
              (Some [Num 530]) None)
           (Change (Some [Key ''glyphs'', Key ''A'', Key ''xAdvance'']) (Some ''='')
              (Some [Num 500]) None)
           (Str ''drag'') False]\<rparr>
   \<and> timerFires 1
     \<lparr>baseChangePath = Some [Key ''glyphs'', Key ''A''], lastTime = 1000,
      timeoutID = Some 1, throttledEditIncrementalTimeoutID = Some 1,
      timers =
        [(1, Change (Some [Key ''glyphs'', Key ''A'', Key ''xAdvance'']) (Some ''='')
               (Some [Num 520]) None)],
      nextTimerID = 2,
      remoteCalls =
        [EditIncremental
           (Change (Some [Key ''glyphs'', Key ''A'', Key ''xAdvance'']) (Some ''='')
              (Some [Num 510]) None),
         EditFinal
           (Change (Some [Key ''glyphs'', Key ''A'', Key ''xAdvance'']) (Some ''='')
              (Some [Num 530]) None)
           (Change (Some [Key ''glyphs'', Key ''A'', Key ''xAdvance'']) (Some ''='')
              (Some [Num 500]) None)
           (Str ''drag'') False]\<rparr>
   = \<lparr>baseChangePath = Some [Key ''glyphs'', Key ''A''], lastTime = 1000,
      timeoutID = None, throttledEditIncrementalTimeoutID = Some 1, timers = [],
      nextTimerID = 2,
      remoteCalls =
        [EditIncremental
           (Change (Some [Key ''glyphs'', Key ''A'', Key ''xAdvance'']) (Some ''='')
              (Some [Num 510]) None),
         EditFinal
           (Change (Some [Key ''glyphs'', Key ''A'', Key ''xAdvance'']) (Some ''='')
              (Some [Num 530]) None)
           (Change (Some [Key ''glyphs'', Key ''A'', Key ''xAdvance'']) (Some ''='')
              (Some [Num 500]) None)
           (Str ''drag'') False,
         EditIncremental
           (Change (Some [Key ''glyphs'', Key ''A'', Key ''xAdvance'']) (Some ''='')
              (Some [Num 520]) None)]\<rparr>"
proof (intro conjI)
  show "editIncremental 1000
     (Single (Change (Some [Key ''xAdvance'']) (Some ''='') (Some [Num 510]) None)) True
     (newGlyphEditContext (Some [Key ''glyphs'', Key ''A'']))
   = \<lparr>baseChangePath = Some [Key ''glyphs'', Key ''A''], lastTime = 1000,
      timeoutID = None, throttledEditIncrementalTimeoutID = None, timers = [],
      nextTimerID = 1,
      remoteCalls =
        [EditIncremental
           (Change (Some [Key ''glyphs'', Key ''A'', Key ''xAdvance'']) (Some ''='')
              (Some [Num 510]) None)]\<rparr>"
    by (simp add: editIncremental_def newGlyphEditContext_def consolidate_at_glyph
          throttledEditIncremental_def sendIncremental_def Let_def)
qed (simp_all add: editIncremental_def editFinal_def consolidate_at_glyph
       throttledEditIncremental_def sendIncremental_def timerFires_def Let_def)


section \<open>undoRedoGlyph without a record\<close>

text \<open>
  Popping from a side that is empty returns \<open>undefined\<close> and leaves both stacks as they
  are. \<open>undoRedoGlyph\<close> returns \<open>undefined\<close> and leaves the controller as it is (no
  change applied, no call of the remote font, the stacks unchanged) for a glyph whose
  stack has no record on the requested side, and for a glyph without a stack whose name
  is not the name of a member of \<open>Object.prototype\<close>; for a glyph without a stack whose
  name is such a name it throws.
\<close>

lemma undoRedoGlyph_without_record:
  fixes st :: "'r UndoStack"
  shows
  "popUndoRedoRecord_stacks [] pushStack = (None, [], pushStack)
   \<and> (undoStack st = [] \<longrightarrow> popUndoRedoRecord False st = (None, st))
   \<and> (redoStack st = [] \<longrightarrow> popUndoRedoRecord True st = (None, st))
   \<and> (undoStacks ctl glyphName = None \<and> glyphName \<notin> set objectPrototypeNames
       \<longrightarrow> undoRedoGlyph glyphName isRedo ctl = Inr (None, ctl))
   \<and> (undoStacks ctl glyphName = Some s \<and> getTopUndoRedoRecord isRedo s = None
       \<longrightarrow> undoRedoGlyph glyphName isRedo ctl = Inr (None, ctl))
   \<and> (undoStacks ctl glyphName = None \<and> glyphName \<in> set objectPrototypeNames
       \<longrightarrow> undoRedoGlyph glyphName isRedo ctl = Inl TypeError)"
proof -
  have own: "undoRedoGlyph glyphName isRedo ctl = Inr (None, ctl)"
    if "undoStacks ctl glyphName = Some s" "getTopUndoRedoRecord isRedo s = None"
  proof -
    from that(2) have "(if isRedo then redoStack s else undoStack s) = []"
      by (cases isRedo) (simp_all add: getTopUndoRedoRecord_def Let_def split: if_splits)
    then have "popUndoRedoRecord isRedo s = (None, s)"
      by (rule popUndoRedoRecord_empty)
    with that(1) show ?thesis
      by (simp add: undoRedoGlyph_def plainObjectGet_def map_upd_triv)
  qed
  have missing: "undoRedoGlyph glyphName isRedo ctl = Inr (None, ctl)"
    if "undoStacks ctl glyphName = None" "glyphName \<notin> set objectPrototypeNames"
    using that by (simp add: undoRedoGlyph_def plainObjectGet_def)
  have inherited: "undoRedoGlyph glyphName isRedo ctl = Inl TypeError"
    if "undoStacks ctl glyphName = None" "glyphName \<in> set objectPrototypeNames"
    using that by (simp add: undoRedoGlyph_def plainObjectGet_def)
  show ?thesis
    using own missing inherited
      popUndoRedoRecord_empty [of False st] popUndoRedoRecord_empty [of True st]
    by (simp add: popUndoRedoRecord_stacks_def)
qed

text \<open>
  C10 says that \<open>undoRedoGlyph\<close> on a glyph with no available record returns
  \<open>undefined\<close>. A new controller has no undo stack for any glyph. For the glyph named
  \<open>constructor\<close>, \<open>this.undoStacks["constructor"]\<close> is the inherited \<open>Object\<close>
  function, which has no \<open>popUndoRedoRecord\<close>, and \<open>undoRedoGlyph\<close> throws a
  \<open>TypeError\<close>; for the glyph named \<open>A\<close> it returns \<open>undefined\<close> and leaves the
  controller as it is.
\<close>

theorem undoRedoGlyph_inherited_name:
  "undoRedoGlyph ''constructor'' False \<lparr>undoStacks = Map.empty, effects = []\<rparr>
     = Inl TypeError
   \<and> undoRedoGlyph ''A'' False \<lparr>undoStacks = Map.empty, effects = []\<rparr>
     = Inr (None, \<lparr>undoStacks = Map.empty, effects = []\<rparr>)"
  by (simp add: undoRedoGlyph_def plainObjectGet_def objectPrototypeNames_def)

section \<open>The dependency tables\<close>

lemma plainObjectGet_plain:
  "key \<notin> set objectPrototypeNames \<Longrightarrow>
   plainObjectGet table key = (case table key of None \<Rightarrow> Missing | Some v \<Rightarrow> Own v)"
  by (simp add: plainObjectGet_def split: option.splits)

lemma zapUsedBy_plain:
  assumes "set names \<inter> set objectPrototypeNames = {}"
  shows "fst (zapUsedBy g names ub) = None
   \<and> (case snd (zapUsedBy g names ub) a of None \<Rightarrow> {} | Some s \<Rightarrow> s) =
       (if a \<in> set names then (case ub a of None \<Rightarrow> {} | Some s \<Rightarrow> s) - {g}
        else (case ub a of None \<Rightarrow> {} | Some s \<Rightarrow> s))"
  using assms
proof (induction names arbitrary: ub)
  case Nil
  show ?case by simp
next
  case (Cons x names)
  then have x: "x \<notin> set objectPrototypeNames"
    and rest: "set names \<inter> set objectPrototypeNames = {}"
    by auto
  note IH1 = Cons.IH [OF rest, THEN conjunct1]
  note IH2 = Cons.IH [OF rest, THEN conjunct2]
  show ?case
  proof (cases "ub x")
    case None
    have step: "zapUsedBy g (x # names) ub = zapUsedBy g names ub"
      using None x by (simp add: plainObjectGet_plain)
    show ?thesis
      unfolding step IH1 IH2 using None by auto
  next
    case (Some s)
    have step: "zapUsedBy g (x # names) ub = zapUsedBy g names (ub(x \<mapsto> s - {g}))"
      using Some x by (simp add: plainObjectGet_plain)
    show ?thesis
      unfolding step IH1 IH2 using Some by auto
  qed
qed

lemma addUsedBy_plain:
  assumes "set names \<inter> set objectPrototypeNames = {}"
  shows "fst (addUsedBy g names ub) = None
   \<and> (case snd (addUsedBy g names ub) a of None \<Rightarrow> {} | Some s \<Rightarrow> s) =
       (if a \<in> set names then insert g (case ub a of None \<Rightarrow> {} | Some s \<Rightarrow> s)
        else (case ub a of None \<Rightarrow> {} | Some s \<Rightarrow> s))"
  using assms
proof (induction names arbitrary: ub)
  case Nil
  show ?case by simp
next
  case (Cons x names)
  then have x: "x \<notin> set objectPrototypeNames"
    and rest: "set names \<inter> set objectPrototypeNames = {}"
    by auto
  note IH1 = Cons.IH [OF rest, THEN conjunct1]
  note IH2 = Cons.IH [OF rest, THEN conjunct2]
  show ?case
  proof (cases "ub x")
    case None
    have step: "addUsedBy g (x # names) ub = addUsedBy g names (ub(x \<mapsto> {g}))"
      using None x by (simp add: plainObjectGet_plain)
    show ?thesis
      unfolding step IH1 IH2 using None by auto
  next
    case (Some s)
    have step: "addUsedBy g (x # names) ub = addUsedBy g names (ub(x \<mapsto> insert g s))"
      using Some x by (simp add: plainObjectGet_plain)
    show ?thesis
      unfolding step IH1 IH2 using Some by auto
  qed
qed

lemma updateGlyphDependencies_plain:
  assumes "plainNames deps" and "g \<notin> set objectPrototypeNames"
    and "set cs \<inter> set objectPrototypeNames = {}"
  shows "fst (updateGlyphDependencies g cs deps) = None"
    and "madeOf (snd (updateGlyphDependencies g cs deps)) b =
           (if b = g then set cs else madeOf deps b)"
    and "usedBy (snd (updateGlyphDependencies g cs deps)) a =
           (if a \<in> set cs
            then insert g (usedBy deps a - (if a \<in> madeOf deps g then {g} else {}))
            else usedBy deps a - (if a \<in> madeOf deps g then {g} else {}))"
    and "plainNames (snd (updateGlyphDependencies g cs deps))"
proof -
  define old where "old = (case glyphMadeOf deps g of None \<Rightarrow> [] | Some names \<Rightarrow> names)"
  have old: "set old \<inter> set objectPrototypeNames = {}"
  proof (cases "glyphMadeOf deps g")
    case None
    then show ?thesis by (simp add: old_def)
  next
    case (Some names)
    with assms(1) have "set names \<inter> set objectPrototypeNames = {}"
      unfolding plainNames_def by blast
    with Some show ?thesis by (simp add: old_def)
  qed
  have old_set: "set old = madeOf deps g"
    by (simp add: old_def madeOf_def split: option.splits)
  obtain ub1 where z: "zapUsedBy g old (glyphUsedBy deps) = (None, ub1)"
    using zapUsedBy_plain [OF old, of g "glyphUsedBy deps"]
    by (cases "zapUsedBy g old (glyphUsedBy deps)") auto
  obtain ub2 where a: "addUsedBy g cs ub1 = (None, ub2)"
    using addUsedBy_plain [OF assms(3), of g ub1]
    by (cases "addUsedBy g cs ub1") auto
  have upd: "updateGlyphDependencies g cs deps =
      (None, \<lparr>glyphMadeOf = (glyphMadeOf deps)(g \<mapsto> cs), glyphUsedBy = ub2\<rparr>)"
    using assms(2) z a
    by (simp add: updateGlyphDependencies_def plainObjectGet_plain old_def
          split: option.splits)
  have ub1: "(case ub1 x of None \<Rightarrow> {} | Some s \<Rightarrow> s) =
       (if x \<in> madeOf deps g then usedBy deps x - {g} else usedBy deps x)" for x
    using zapUsedBy_plain [OF old, of g "glyphUsedBy deps" x] z old_set
    by (simp add: usedBy_def)
  have ub2: "(case ub2 x of None \<Rightarrow> {} | Some s \<Rightarrow> s) =
       (if x \<in> set cs then insert g (case ub1 x of None \<Rightarrow> {} | Some s \<Rightarrow> s)
        else (case ub1 x of None \<Rightarrow> {} | Some s \<Rightarrow> s))" for x
    using addUsedBy_plain [OF assms(3), of g ub1 x] a by simp
  show "fst (updateGlyphDependencies g cs deps) = None"
    by (simp add: upd)
  show "madeOf (snd (updateGlyphDependencies g cs deps)) b =
           (if b = g then set cs else madeOf deps b)"
    by (simp add: upd madeOf_def)
  show "usedBy (snd (updateGlyphDependencies g cs deps)) a =
           (if a \<in> set cs
            then insert g (usedBy deps a - (if a \<in> madeOf deps g then {g} else {}))
            else usedBy deps a - (if a \<in> madeOf deps g then {g} else {}))"
    unfolding upd by (simp add: usedBy_def [of "\<lparr>glyphMadeOf = _, glyphUsedBy = _\<rparr>"] ub2 ub1)
  show "plainNames (snd (updateGlyphDependencies g cs deps))"
    using assms(1,3) by (auto simp: upd plainNames_def)
qed

text \<open>
  \<open>glyphUsedBy\<close> is the transpose of \<open>glyphMadeOf\<close> (\<open>b\<close> is in \<open>glyphUsedBy[a]\<close> if
  and only if \<open>a\<close> is in \<open>glyphMadeOf[b]\<close>) in a new controller, and a call of
  \<open>updateGlyphDependencies\<close> keeps it so, without throwing, when neither the glyph name
  nor a component name, new or recorded, is the name of a member of \<open>Object.prototype\<close>:
  the reverse entries of the old component names are removed first, and afterwards the
  glyph is used by exactly its new components.
\<close>

lemma dependencies_transposed:
  "transposed newDependencies \<and> plainNames newDependencies
   \<and> (transposed deps \<and> plainNames deps \<and> g \<notin> set objectPrototypeNames
        \<and> set cs \<inter> set objectPrototypeNames = {}
       \<longrightarrow> fst (updateGlyphDependencies g cs deps) = None
         \<and> transposed (snd (updateGlyphDependencies g cs deps))
         \<and> plainNames (snd (updateGlyphDependencies g cs deps))
         \<and> madeOf (snd (updateGlyphDependencies g cs deps)) g = set cs
         \<and> (\<forall>a. g \<in> usedBy (snd (updateGlyphDependencies g cs deps)) a \<longleftrightarrow> a \<in> set cs))"
proof -
  have init: "transposed newDependencies" "plainNames newDependencies"
    by (simp_all add: transposed_def plainNames_def newDependencies_def usedBy_def madeOf_def)
  have step: "fst (updateGlyphDependencies g cs deps) = None
         \<and> transposed (snd (updateGlyphDependencies g cs deps))
         \<and> plainNames (snd (updateGlyphDependencies g cs deps))
         \<and> madeOf (snd (updateGlyphDependencies g cs deps)) g = set cs
         \<and> (\<forall>a. g \<in> usedBy (snd (updateGlyphDependencies g cs deps)) a \<longleftrightarrow> a \<in> set cs)"
    if t: "transposed deps" and pl: "plainNames deps" and g: "g \<notin> set objectPrototypeNames"
      and cs: "set cs \<inter> set objectPrototypeNames = {}"
  proof -
    note u = updateGlyphDependencies_plain [OF pl g cs]
    have inv: "b \<in> usedBy deps a \<longleftrightarrow> a \<in> madeOf deps b" for a b
      using t by (simp add: transposed_def)
    have tr: "b \<in> usedBy (snd (updateGlyphDependencies g cs deps)) a
          \<longleftrightarrow> a \<in> madeOf (snd (updateGlyphDependencies g cs deps)) b" for a b
    proof (cases "b = g")
      case True
      then show ?thesis using inv [of g a] by (simp add: u(2,3))
    next
      case False
      then show ?thesis using inv [of b a] by (simp add: u(2,3))
    qed
    then have "transposed (snd (updateGlyphDependencies g cs deps))"
      by (simp add: transposed_def)
    moreover have "\<forall>a. g \<in> usedBy (snd (updateGlyphDependencies g cs deps)) a \<longleftrightarrow> a \<in> set cs"
      using tr by (simp add: u(2))
    ultimately show ?thesis
      using u(1,4) by (simp add: u(2))
  qed
  show ?thesis using init step by blast
qed

text \<open>
  C9 says that the transpose relation is re-established every time the dependencies of
  a glyph are recomputed. For a glyph \<open>A\<close> whose only component is named
  \<open>constructor\<close>, the call stores the component under \<open>glyphMadeOf["A"]\<close>, finds the
  inherited \<open>Object\<close> function under \<open>glyphUsedBy["constructor"]\<close>, stores no \<open>Set\<close>
  and throws at \<open>.add\<close>: \<open>constructor\<close> is in \<open>glyphMadeOf["A"]\<close>, and \<open>A\<close> is not in
  \<open>glyphUsedBy["constructor"]\<close>.
\<close>

theorem updateGlyphDependencies_inherited_name:
  "fst (updateGlyphDependencies ''A'' [''constructor''] newDependencies) = Some TypeError
   \<and> madeOf (snd (updateGlyphDependencies ''A'' [''constructor''] newDependencies)) ''A''
       = {''constructor''}
   \<and> usedBy (snd (updateGlyphDependencies ''A'' [''constructor''] newDependencies))
       ''constructor'' = {}
   \<and> \<not> transposed (snd (updateGlyphDependencies ''A'' [''constructor''] newDependencies))"
proof -
  have u: "updateGlyphDependencies ''A'' [''constructor''] newDependencies =
      (Some TypeError, \<lparr>glyphMadeOf = (\<lambda>k. None)(''A'' \<mapsto> [''constructor'']),
                        glyphUsedBy = (\<lambda>k. None)\<rparr>)"
    by (simp add: updateGlyphDependencies_def newDependencies_def plainObjectGet_def
          objectPrototypeNames_def)
  have m: "madeOf (snd (updateGlyphDependencies ''A'' [''constructor''] newDependencies)) ''A''
       = {''constructor''}"
    by (simp add: u madeOf_def)
  have ub: "usedBy (snd (updateGlyphDependencies ''A'' [''constructor''] newDependencies))
       ''constructor'' = {}"
    by (simp add: u usedBy_def)
  have "\<not> transposed (snd (updateGlyphDependencies ''A'' [''constructor''] newDependencies))"
  proof
    assume "transposed (snd (updateGlyphDependencies ''A'' [''constructor''] newDependencies))"
    then have "''A'' \<in> usedBy (snd (updateGlyphDependencies ''A'' [''constructor''] newDependencies))
       ''constructor''
      \<longleftrightarrow> ''constructor'' \<in> madeOf (snd (updateGlyphDependencies ''A'' [''constructor''] newDependencies)) ''A''"
      unfolding transposed_def by blast
    then show False by (simp add: m ub)
  qed
  moreover have "fst (updateGlyphDependencies ''A'' [''constructor''] newDependencies)
      = Some TypeError"
    by (simp add: u)
  ultimately show ?thesis using m ub by blast
qed

section \<open>applyChange: descent, call and children\<close>

lemma descend_fails_iff:
  "(descend proto h subject path = Inl e) \<longleftrightarrow>
     (\<exists>k<length path. \<exists>s. descend proto h subject (take k path) = Inr s \<and>
        (case getItem proto h s (path ! k) of
           Inl e1 \<Rightarrow> e = e1
         | Inr s1 \<Rightarrow> s1 = Undefined \<and> e = InvalidChangePath))"
proof (induction path arbitrary: subject)
  case Nil
  show ?case by simp
next
  case (Cons x xs)
  show ?case
  proof (cases "getItem proto h subject x")
    case (Inl e1)
    then show ?thesis
      by (auto simp: Ex_less_Suc2)
  next
    case (Inr s1)
    show ?thesis
    proof (cases "s1 = Undefined")
      case True
      with Inr show ?thesis by (auto simp: Ex_less_Suc2)
    next
      case False
      with Inr show ?thesis
        using Cons.IH [of s1] by (simp add: Ex_less_Suc2)
    qed
  qed
qed

lemma descend_invalid_path_iff:
  "(descend proto h subject path = Inl InvalidChangePath) \<longleftrightarrow>
     (\<exists>k<length path. \<exists>s. descend proto h subject (take k path) = Inr s \<and>
        getItem proto h s (path ! k) = Inr Undefined)"
proof -
  have "(case getItem proto h s seg of
           Inl e1 \<Rightarrow> InvalidChangePath = e1
         | Inr s1 \<Rightarrow> s1 = Undefined \<and> InvalidChangePath = InvalidChangePath)
        \<longleftrightarrow> getItem proto h s seg = Inr Undefined" for s seg
    by (auto simp: getItem_def split: sum.splits val.splits obj.splits)
  then show ?thesis
    unfolding descend_fails_iff by simp
qed

lemma getItem_TypeError_iff:
  "getItem proto h s seg = Inl e \<longleftrightarrow> e = TypeError \<and> (s = Undefined \<or> s = Null)"
  by (auto simp: getItem_def split: val.splits obj.splits)

text \<open>
  C5 (as the code has it). \<open>applyChange\<close> descends from the subject along the node's
  path. The descent fails if and only if some path element, looked up in the value that
  the elements before it resolve to, gives \<open>undefined\<close> or is looked up in \<open>null\<close> or
  \<open>undefined\<close>; it fails with the invalid-path error if and only if some element
  resolves to \<open>undefined\<close> (an element resolves through own and inherited properties).
  A failed descent is the result of \<open>applyChange\<close>. When the descent succeeds,
  \<open>applyChange\<close> calls the node's function, if it has one, with the resolved subject
  and the node's arguments: no call without a function name, the member of
  \<open>changeFunctions\<close> for one of its ten names or for the name of a member inherited from
  \<open>Object.prototype\<close>, and a \<open>TypeError\<close> for every other name. Then it applies the
  children one after the other to the same resolved subject, stopping at the first
  child that fails.
\<close>

theorem applyChange_descends:
  "((\<exists>e. descend proto h subject path = Inl e) \<longleftrightarrow>
      (\<exists>k<length path. \<exists>s. descend proto h subject (take k path) = Inr s \<and>
         (getItem proto h s (path ! k) = Inr Undefined \<or> s = Null \<or> s = Undefined)))
   \<and> (descend proto h subject path = Inl InvalidChangePath \<longleftrightarrow>
      (\<exists>k<length path. \<exists>s. descend proto h subject (take k path) = Inr s \<and>
         getItem proto h s (path ! k) = Inr Undefined))
   \<and> (descend proto h subject (case p of None \<Rightarrow> [] | Some q \<Rightarrow> q) = Inl e \<longrightarrow>
        applyChange impl proto h subject (Change p f a c) = Inl e)
   \<and> (descend proto h subject (case p of None \<Rightarrow> [] | Some q \<Rightarrow> q) = Inr s \<longrightarrow>
        applyChange impl proto h subject (Change p f a c) =
          (case callChangeFunction impl h s f a of
             Inl e \<Rightarrow> Inl e
           | Inr h1 \<Rightarrow> applyChildren impl proto h1 s (case c of None \<Rightarrow> [] | Some cs \<Rightarrow> cs)))
   \<and> callChangeFunction impl h s None a = Inr h
   \<and> (name \<in> set changeFunctionNames \<or> name \<in> set objectPrototypeNames \<longrightarrow>
        callChangeFunction impl h s (Some name) a =
          impl name h s (case a of None \<Rightarrow> [] | Some args \<Rightarrow> args))
   \<and> (name \<noteq> [] \<and> name \<notin> set changeFunctionNames \<and> name \<notin> set objectPrototypeNames \<longrightarrow>
        callChangeFunction impl h s (Some name) a = Inl TypeError)
   \<and> applyChildren impl proto h s [] = Inr h
   \<and> applyChildren impl proto h s (subChange # rest) =
        (case applyChange impl proto h s subChange of
           Inl e \<Rightarrow> Inl e
         | Inr h1 \<Rightarrow> applyChildren impl proto h1 s rest)"
proof -
  have key: "(\<exists>e. case getItem proto h s seg of
           Inl e1 \<Rightarrow> e = e1
         | Inr s1 \<Rightarrow> s1 = Undefined \<and> e = InvalidChangePath)
        \<longleftrightarrow> (getItem proto h s seg = Inr Undefined \<or> s = Null \<or> s = Undefined)" for s seg
    by (cases s) (auto simp: getItem_def split: obj.splits)
  have "(\<exists>e. descend proto h subject path = Inl e) \<longleftrightarrow>
      (\<exists>k<length path. \<exists>s. descend proto h subject (take k path) = Inr s \<and>
         (\<exists>e. case getItem proto h s (path ! k) of
           Inl e1 \<Rightarrow> e = e1
         | Inr s1 \<Rightarrow> s1 = Undefined \<and> e = InvalidChangePath))"
    unfolding descend_fails_iff by blast
  then have a: "(\<exists>e. descend proto h subject path = Inl e) \<longleftrightarrow>
      (\<exists>k<length path. \<exists>s. descend proto h subject (take k path) = Inr s \<and>
         (getItem proto h s (path ! k) = Inr Undefined \<or> s = Null \<or> s = Undefined))"
    unfolding key .
  have b: "callChangeFunction impl h s (Some name) a =
          impl name h s (case a of None \<Rightarrow> [] | Some args \<Rightarrow> args)"
    if "name \<in> set changeFunctionNames \<or> name \<in> set objectPrototypeNames"
  proof -
    from that have "name \<noteq> []"
      by (auto simp: changeFunctionNames_def objectPrototypeNames_def)
    with that show ?thesis
      by (auto simp: callChangeFunction_def changeFunctions_def falsyName_def)
  qed
  have c: "callChangeFunction impl h s (Some name) a = Inl TypeError"
    if "name \<noteq> [] \<and> name \<notin> set changeFunctionNames \<and> name \<notin> set objectPrototypeNames"
    using that by (simp add: callChangeFunction_def changeFunctions_def falsyName_def)
  have d: "callChangeFunction impl h s None a = Inr h"
    by (simp add: callChangeFunction_def falsyName_def)
  have e: "applyChange impl proto h subject (Change p f a c) =
          (case callChangeFunction impl h s f a of
             Inl e \<Rightarrow> Inl e
           | Inr h1 \<Rightarrow> applyChildren impl proto h1 s (case c of None \<Rightarrow> [] | Some cs \<Rightarrow> cs))"
    if "descend proto h subject (case p of None \<Rightarrow> [] | Some q \<Rightarrow> q) = Inr s"
    using that by (simp split: sum.splits option.splits)
  have f: "applyChange impl proto h subject (Change p f a c) = Inl e"
    if "descend proto h subject (case p of None \<Rightarrow> [] | Some q \<Rightarrow> q) = Inl e"
    using that by simp
  show ?thesis
    by (intro conjI impI a descend_invalid_path_iff b c d e f applyChildren.simps) simp_all
qed

text \<open>
  A document \<open>{glyphs: {A: {xAdvance: 500}}}\<close> of plain objects, and a registry in
  which \<open>"="\<close> stores its second argument as \<open>xAdvance\<close> of the subject and the inherited
  \<open>constructor\<close> leaves the store as it is: a change at \<open>["glyphs", "A"]\<close>, one at the
  missing \<open>["glyphs", "B", "path"]\<close>, one with a name that the table does not resolve,
  one that reaches \<open>A\<close> through a child, and one whose function name is the inherited
  \<open>constructor\<close>, which is called and does not throw.
\<close>

theorem applyChange_descends_witness:
  "(let h0 = (\<lambda>r. Obj [])
               (0 := Obj [(''glyphs'', Ref 1)],
                1 := Obj [(''A'', Ref 2)],
                2 := Obj [(''xAdvance'', Num 500)]);
        impl0 = (\<lambda>name h s args.
                   if name = ''='' then
                     (case s of
                        Ref r \<Rightarrow> Inr (h(r := Obj [(''xAdvance'', args ! 1)]))
                      | _ \<Rightarrow> Inl TypeError)
                   else if name = ''constructor'' then Inr h
                   else Inl TypeError)
    in applyChange impl0 plainObjectPrototype h0 (Ref 0)
         (Change (Some [Key ''glyphs'', Key ''A'']) (Some ''='')
            (Some [Str ''xAdvance'', Num 600]) None)
       = Inr (h0(2 := Obj [(''xAdvance'', Num 600)]))
     \<and> applyChange impl0 plainObjectPrototype h0 (Ref 0)
         (Change (Some [Key ''glyphs'', Key ''B'', Key ''path'']) (Some ''='')
            (Some [Str ''xAdvance'', Num 600]) None)
       = Inl InvalidChangePath
     \<and> applyChange impl0 plainObjectPrototype h0 (Ref 0)
         (Change (Some [Key ''glyphs'', Key ''A'']) (Some ''nope'') None None)
       = Inl TypeError
     \<and> applyChange impl0 plainObjectPrototype h0 (Ref 0)
         (Change (Some [Key ''glyphs'']) None None
            (Some [Change (Some [Key ''A'']) (Some ''='') (Some [Str ''xAdvance'', Num 600]) None]))
       = Inr (h0(2 := Obj [(''xAdvance'', Num 600)]))
     \<and> applyChange impl0 plainObjectPrototype h0 (Ref 0)
         (Change (Some [Key ''glyphs'', Key ''A'']) (Some ''constructor'') None None)
       = Inr h0)"
proof -
  define h0 :: heap where "h0 = (\<lambda>r. Obj [])
               (0 := Obj [(''glyphs'', Ref 1)],
                1 := Obj [(''A'', Ref 2)],
                2 := Obj [(''xAdvance'', Num 500)])"
  define impl0 :: "string \<Rightarrow> changeFunc" where "impl0 = (\<lambda>name h s args.
                   if name = ''='' then
                     (case s of
                        Ref r \<Rightarrow> Inr (h(r := Obj [(''xAdvance'', args ! 1)]))
                      | _ \<Rightarrow> Inl TypeError)
                   else if name = ''constructor'' then Inr h
                   else Inl TypeError)"
  let ?pr = plainObjectPrototype
  have d1: "descend ?pr h0 (Ref 0) [Key ''glyphs'', Key ''A''] = Inr (Ref 2)"
    by (simp add: h0_def getItem_def objectOwn_def)
  have d2: "descend ?pr h0 (Ref 0) [Key ''glyphs'', Key ''B'', Key ''path'']
              = Inl InvalidChangePath"
    by (simp add: h0_def getItem_def objectOwn_def plainObjectPrototype_def
          objectPrototypeNames_def)
  have d3: "descend ?pr h0 (Ref 0) [Key ''glyphs''] = Inr (Ref 1)"
    by (simp add: h0_def getItem_def objectOwn_def)
  have d4: "descend ?pr h0 (Ref 1) [Key ''A''] = Inr (Ref 2)"
    by (simp add: h0_def getItem_def objectOwn_def)
  have n1: "''='' \<in> set changeFunctionNames \<or> ''='' \<in> set objectPrototypeNames"
    by (simp add: changeFunctionNames_def)
  have n2: "''nope'' \<noteq> [] \<and> ''nope'' \<notin> set changeFunctionNames
              \<and> ''nope'' \<notin> set objectPrototypeNames"
    by (simp add: changeFunctionNames_def objectPrototypeNames_def)
  have n3: "''constructor'' \<in> set changeFunctionNames
              \<or> ''constructor'' \<in> set objectPrototypeNames"
    by (simp add: objectPrototypeNames_def)
  have c1: "callChangeFunction impl0 h0 (Ref 2) (Some ''='') (Some [Str ''xAdvance'', Num 600])
              = Inr (h0(2 := Obj [(''xAdvance'', Num 600)]))"
    using n1 applyChange_descends
      [where impl = impl0 and h = h0 and s = "Ref 2" and name = "''=''"
         and a = "Some [Str ''xAdvance'', Num 600]"]
    by (simp add: impl0_def)
  have w1: "applyChange impl0 ?pr h0 (Ref 0)
         (Change (Some [Key ''glyphs'', Key ''A'']) (Some ''='')
            (Some [Str ''xAdvance'', Num 600]) None)
       = Inr (h0(2 := Obj [(''xAdvance'', Num 600)]))"
    using d1 c1 applyChange_descends
      [where impl = impl0 and proto = ?pr and h = h0 and subject = "Ref 0" and s = "Ref 2"
         and p = "Some [Key ''glyphs'', Key ''A'']" and f = "Some ''=''"
         and a = "Some [Str ''xAdvance'', Num 600]" and c = None]
    by simp
  have w2: "applyChange impl0 ?pr h0 (Ref 0)
         (Change (Some [Key ''glyphs'', Key ''B'', Key ''path'']) (Some ''='')
            (Some [Str ''xAdvance'', Num 600]) None)
       = Inl InvalidChangePath"
    using d2 applyChange_descends
      [where impl = impl0 and proto = ?pr and h = h0 and subject = "Ref 0"
         and e = InvalidChangePath
         and p = "Some [Key ''glyphs'', Key ''B'', Key ''path'']" and f = "Some ''=''"
         and a = "Some [Str ''xAdvance'', Num 600]" and c = None]
    by simp
  have c3: "callChangeFunction impl0 h0 (Ref 2) (Some ''nope'') None = Inl TypeError"
    using n2 applyChange_descends
      [where impl = impl0 and h = h0 and s = "Ref 2" and name = "''nope''" and a = None]
    by simp
  have w3: "applyChange impl0 ?pr h0 (Ref 0)
         (Change (Some [Key ''glyphs'', Key ''A'']) (Some ''nope'') None None)
       = Inl TypeError"
    using d1 c3 applyChange_descends
      [where impl = impl0 and proto = ?pr and h = h0 and subject = "Ref 0" and s = "Ref 2"
         and p = "Some [Key ''glyphs'', Key ''A'']" and f = "Some ''nope''"
         and a = None and c = None]
    by simp
  have w4: "applyChange impl0 ?pr h0 (Ref 0)
         (Change (Some [Key ''glyphs'']) None None
            (Some [Change (Some [Key ''A'']) (Some ''='') (Some [Str ''xAdvance'', Num 600]) None]))
       = Inr (h0(2 := Obj [(''xAdvance'', Num 600)]))"
  proof -
    have "applyChange impl0 ?pr h0 (Ref 1)
            (Change (Some [Key ''A'']) (Some ''='') (Some [Str ''xAdvance'', Num 600]) None)
          = Inr (h0(2 := Obj [(''xAdvance'', Num 600)]))"
      using d4 c1 applyChange_descends
        [where impl = impl0 and proto = ?pr and h = h0 and subject = "Ref 1" and s = "Ref 2"
           and p = "Some [Key ''A'']" and f = "Some ''=''"
           and a = "Some [Str ''xAdvance'', Num 600]" and c = None]
      by simp
    then show ?thesis
      using d3 applyChange_descends
        [where impl = impl0 and proto = ?pr and h = h0 and subject = "Ref 0" and s = "Ref 1"
           and p = "Some [Key ''glyphs'']" and f = None and a = None
           and c = "Some [Change (Some [Key ''A'']) (Some ''='') (Some [Str ''xAdvance'', Num 600]) None]"
           and subChange = "Change (Some [Key ''A'']) (Some ''='') (Some [Str ''xAdvance'', Num 600]) None"
           and rest = "[]"]
      by simp
  qed
  have c5: "callChangeFunction impl0 h0 (Ref 2) (Some ''constructor'') None = Inr h0"
    using n3 applyChange_descends
      [where impl = impl0 and h = h0 and s = "Ref 2" and name = "''constructor''" and a = None]
    by (simp add: impl0_def)
  have w5: "applyChange impl0 ?pr h0 (Ref 0)
         (Change (Some [Key ''glyphs'', Key ''A'']) (Some ''constructor'') None None)
       = Inr h0"
    using d1 c5 applyChange_descends
      [where impl = impl0 and proto = ?pr and h = h0 and subject = "Ref 0" and s = "Ref 2"
         and p = "Some [Key ''glyphs'', Key ''A'']" and f = "Some ''constructor''"
         and a = None and c = None]
    by simp
  show ?thesis
    using w1 w2 w3 w4 w5 unfolding h0_def impl0_def Let_def by simp
qed

text \<open>
  C5 as stated lets \<open>applyChange\<close> throw only when a path element resolves to
  \<open>undefined\<close>. With an empty path and the function name \<open>"nope"\<close>, which is neither in
  the table nor inherited, nothing is resolved and \<open>applyChange\<close> throws; and on
  \<open>{a: null}\<close> the path \<open>["a", "b"]\<close> throws although \<open>a\<close> resolves to \<open>null\<close>, not to
  \<open>undefined\<close>.
\<close>

theorem applyChange_other_failures:
  "descend plainObjectPrototype (\<lambda>r. Obj []) (Ref 0) [] = Inr (Ref 0)
   \<and> applyChange (\<lambda>name h s args. Inr h) plainObjectPrototype (\<lambda>r. Obj []) (Ref 0)
       (Change None (Some ''nope'') None None) = Inl TypeError
   \<and> getItem plainObjectPrototype ((\<lambda>r. Obj [])(0 := Obj [(''a'', Null)])) (Ref 0) (Key ''a'')
       = Inr Null
   \<and> applyChange (\<lambda>name h s args. Inr h) plainObjectPrototype
       ((\<lambda>r. Obj [])(0 := Obj [(''a'', Null)])) (Ref 0)
       (Change (Some [Key ''a'', Key ''b'']) None None None) = Inl TypeError"
  by (simp add: callChangeFunction_def changeFunctions_def changeFunctionNames_def
        objectPrototypeNames_def falsyName_def getItem_def objectOwn_def)

section \<open>consolidateChanges: the common prefix\<close>

lemma pathAt_pathOf:
  "pathAt ch index = (if index < length (pathOf ch) then Some (pathOf ch ! index) else None)"
  by (simp add: pathAt_def pathOf_def split: option.splits)

lemma take_Suc_snoc:
  "index < length q \<Longrightarrow> take index q = cp \<Longrightarrow> take (Suc index) q = cp @ [q ! index]"
  by (auto simp: take_Suc_conv_app_nth)

lemma findCommonPrefix_loop_prefix:
  assumes "changes \<noteq> []"
    and "\<forall>ch\<in>set changes. index \<le> length (pathOf ch) \<and> take index (pathOf ch) = commonPrefix"
  shows "\<forall>ch\<in>set changes. prefix (findCommonPrefix_loop changes index commonPrefix) (pathOf ch)"
  using assms
proof (induction changes index commonPrefix rule: findCommonPrefix_loop.induct)
  case (1 changes index commonPrefix)
  have inv: "index \<le> length (pathOf ch) \<and> take index (pathOf ch) = commonPrefix"
    if "ch \<in> set changes" for ch
    using that "1.prems"(2) by blast
  have stop: "\<forall>ch\<in>set changes. prefix commonPrefix (pathOf ch)"
    using inv by (metis take_is_prefix)
  show ?case
  proof (cases "pathAt (hd changes) index")
    case None
    then show ?thesis
      using stop by (subst findCommonPrefix_loop.simps) simp
  next
    case (Some pathElement)
    show ?thesis
    proof (cases "falsySegment pathElement
        \<or> list_ex (\<lambda>ch. pathAt ch index \<noteq> Some pathElement) (tl changes)")
      case True
      then show ?thesis
        using stop Some by (subst findCommonPrefix_loop.simps) auto
    next
      case False
      have all: "pathAt ch index = Some pathElement" if "ch \<in> set changes" for ch
      proof (cases "ch = hd changes")
        case True
        with Some show ?thesis by simp
      next
        case False
        with that "1.prems"(1) have "ch \<in> set (tl changes)"
          by (cases changes) auto
        with \<open>\<not> (falsySegment pathElement
          \<or> list_ex (\<lambda>ch. pathAt ch index \<noteq> Some pathElement) (tl changes))\<close>
        show ?thesis by (auto simp: list_ex_iff)
      qed
      have next_inv: "\<forall>ch\<in>set changes. Suc index \<le> length (pathOf ch)
          \<and> take (Suc index) (pathOf ch) = commonPrefix @ [pathElement]"
      proof
        fix ch assume ch: "ch \<in> set changes"
        from all [OF ch] have lt: "index < length (pathOf ch)" and el: "pathOf ch ! index = pathElement"
          by (auto simp: pathAt_pathOf split: if_splits)
        from inv [OF ch] lt el show "Suc index \<le> length (pathOf ch)
          \<and> take (Suc index) (pathOf ch) = commonPrefix @ [pathElement]"
          by (auto simp: take_Suc_snoc)
      qed
      have "findCommonPrefix_loop changes index commonPrefix
            = findCommonPrefix_loop changes (Suc index) (commonPrefix @ [pathElement])"
        using Some False by (subst findCommonPrefix_loop.simps) auto
      moreover have "\<forall>ch\<in>set changes.
          prefix (findCommonPrefix_loop changes (Suc index) (commonPrefix @ [pathElement])) (pathOf ch)"
        using "1.IH" [OF Some _ _ "1.prems"(1) next_inv] False by blast
      ultimately show ?thesis by simp
    qed
  qed
qed

lemma findCommonPrefix_loop_longest:
  assumes "changes \<noteq> []"
    and "\<forall>ch\<in>set changes. index \<le> length (pathOf ch) \<and> take index (pathOf ch) = commonPrefix"
    and "\<forall>s\<in>set cp. \<not> falsySegment s"
    and "\<forall>ch\<in>set changes. prefix cp (pathOf ch)"
  shows "prefix cp (findCommonPrefix_loop changes index commonPrefix)"
  using assms
proof (induction changes index commonPrefix rule: findCommonPrefix_loop.induct)
  case (1 changes index commonPrefix)
  have hd_in: "hd changes \<in> set changes"
    using "1.prems"(1) by simp
  have inv: "index \<le> length (pathOf ch) \<and> take index (pathOf ch) = commonPrefix"
    if "ch \<in> set changes" for ch
    using that "1.prems"(2) by blast
  have cp: "prefix cp (pathOf ch)" if "ch \<in> set changes" for ch
    using that "1.prems"(4) by blast
  have short: "prefix cp commonPrefix" if "length cp \<le> index"
  proof -
    have "prefix commonPrefix (pathOf (hd changes))"
      using inv [OF hd_in] by (metis take_is_prefix)
    moreover have "length commonPrefix = index"
      using inv [OF hd_in] by auto
    ultimately show ?thesis
      using cp [OF hd_in] that by (metis prefix_length_prefix)
  qed
  show ?case
  proof (cases "pathAt (hd changes) index")
    case None
    then have "length (pathOf (hd changes)) \<le> index"
      by (simp add: pathAt_pathOf split: if_splits)
    then have "length cp \<le> index"
      using cp [OF hd_in] by (meson prefix_length_le le_trans)
    then show ?thesis
      using None short by (subst findCommonPrefix_loop.simps) simp
  next
    case (Some pathElement)
    then have lt0: "index < length (pathOf (hd changes))"
      and el0: "pathOf (hd changes) ! index = pathElement"
      by (auto simp: pathAt_pathOf split: if_splits)
    show ?thesis
    proof (cases "falsySegment pathElement")
      case True
      have "length cp \<le> index"
      proof (rule ccontr)
        assume "\<not> length cp \<le> index"
        then have lt: "index < length cp" by simp
        have "cp ! index = pathElement"
          using cp [OF hd_in] lt el0 by (auto simp: prefix_def nth_append)
        with True lt "1.prems"(3) show False
          by (metis nth_mem)
      qed
      then show ?thesis
        using Some True short by (subst findCommonPrefix_loop.simps) simp
    next
      case truthy: False
      show ?thesis
      proof (cases "list_ex (\<lambda>ch. pathAt ch index \<noteq> Some pathElement) (tl changes)")
      case True
      then obtain ch where ch: "ch \<in> set (tl changes)" "pathAt ch index \<noteq> Some pathElement"
        by (auto simp: list_ex_iff)
      then have ch_in: "ch \<in> set changes"
        using "1.prems"(1) by (cases changes) auto
      have "length cp \<le> index"
      proof (rule ccontr)
        assume "\<not> length cp \<le> index"
        then have lt: "index < length cp" by simp
        have "cp ! index = pathElement"
          using cp [OF hd_in] lt el0 by (auto simp: prefix_def nth_append)
        moreover have "index < length (pathOf ch) \<and> pathOf ch ! index = cp ! index"
          using cp [OF ch_in] lt by (auto simp: prefix_def nth_append)
        ultimately show False
          using ch(2) by (simp add: pathAt_pathOf)
      qed
      then show ?thesis
        using Some True short by (subst findCommonPrefix_loop.simps) simp
    next
      case False
      have all: "pathAt ch index = Some pathElement" if "ch \<in> set changes" for ch
      proof (cases "ch = hd changes")
        case True
        with Some show ?thesis by simp
      next
        case neq: False
        with that "1.prems"(1) have "ch \<in> set (tl changes)"
          by (cases changes) auto
        with False show ?thesis by (auto simp: list_ex_iff)
      qed
      have next_inv: "\<forall>ch\<in>set changes. Suc index \<le> length (pathOf ch)
          \<and> take (Suc index) (pathOf ch) = commonPrefix @ [pathElement]"
      proof
        fix ch assume ch: "ch \<in> set changes"
        from all [OF ch] have lt: "index < length (pathOf ch)" and el: "pathOf ch ! index = pathElement"
          by (auto simp: pathAt_pathOf split: if_splits)
        from inv [OF ch] lt el show "Suc index \<le> length (pathOf ch)
          \<and> take (Suc index) (pathOf ch) = commonPrefix @ [pathElement]"
          by (auto simp: take_Suc_snoc)
      qed
      have "findCommonPrefix_loop changes index commonPrefix
            = findCommonPrefix_loop changes (Suc index) (commonPrefix @ [pathElement])"
        using Some False truthy by (subst findCommonPrefix_loop.simps) auto
      moreover have "prefix cp (findCommonPrefix_loop changes (Suc index) (commonPrefix @ [pathElement]))"
        using "1.IH" [OF Some truthy False "1.prems"(1) next_inv "1.prems"(3) "1.prems"(4)] .
      ultimately show ?thesis by simp
    qed
    qed
  qed
qed

lemma findCommonPrefix_nonempty_hasPath:
  "findCommonPrefix changes \<noteq> [] \<Longrightarrow> \<forall>ch\<in>set changes. hasPath ch"
  by (auto simp: findCommonPrefix_def list_ex_iff split: if_splits)

lemma hasPath_pathOf: "hasPath ch \<longleftrightarrow> pathOf ch \<noteq> []"
  by (simp add: hasPath_def pathOf_def split: option.splits)

lemma findCommonPrefix_prefix:
  "\<forall>ch\<in>set changes. prefix (findCommonPrefix changes) (pathOf ch)"
proof (cases "changes = [] \<or> list_ex (\<lambda>ch. \<not> hasPath ch) changes")
  case True
  then show ?thesis by (auto simp: findCommonPrefix_def)
next
  case False
  then have "findCommonPrefix changes = findCommonPrefix_loop changes 0 []"
    by (simp add: findCommonPrefix_def)
  moreover have "\<forall>ch\<in>set changes. prefix (findCommonPrefix_loop changes 0 []) (pathOf ch)"
    using False by (intro findCommonPrefix_loop_prefix) auto
  ultimately show ?thesis by simp
qed

lemma findCommonPrefix_longest:
  assumes "changes \<noteq> []"
    and "\<forall>s\<in>set cp. \<not> falsySegment s"
    and "\<forall>ch\<in>set changes. prefix cp (pathOf ch)"
  shows "prefix cp (findCommonPrefix changes)"
proof (cases "list_ex (\<lambda>ch. \<not> hasPath ch) changes")
  case True
  then obtain ch where "ch \<in> set changes" "pathOf ch = []"
    by (auto simp: list_ex_iff hasPath_pathOf)
  with assms(3) have "cp = []" by auto
  then show ?thesis by simp
next
  case False
  with assms(1) have "findCommonPrefix changes = findCommonPrefix_loop changes 0 []"
    by (simp add: findCommonPrefix_def)
  moreover have "prefix cp (findCommonPrefix_loop changes 0 [])"
    using assms by (intro findCommonPrefix_loop_longest) auto
  ultimately show ?thesis by simp
qed

lemma stripCommonPrefix_zero: "stripCommonPrefix 0 = zapEmptyPath"
proof
  fix ch :: "'a change"
  show "stripCommonPrefix 0 ch = zapEmptyPath ch"
    by (cases ch) (auto simp: stripCommonPrefix_def zapEmptyPath_def split: option.splits)
qed

lemma stripCommonPrefix_fields:
  "ch_p (stripCommonPrefix n ch) =
     (if drop n (pathOf ch) = [] then None else Some (drop n (pathOf ch)))
   \<and> ch_f (stripCommonPrefix n ch) = ch_f ch
   \<and> ch_a (stripCommonPrefix n ch) = ch_a ch
   \<and> ch_c (stripCommonPrefix n ch) = ch_c ch"
  by (cases ch) (auto simp: stripCommonPrefix_def pathOf_def Let_def split: option.splits)

lemma stripCommonPrefix_repath:
  "stripCommonPrefix n ch = Change (ch_p (stripCommonPrefix n ch)) (ch_f ch) (ch_a ch) (ch_c ch)"
  by (cases ch) (auto simp: stripCommonPrefix_def Let_def split: option.splits)

lemma consolidateChanges_multiple:
  assumes "length changes \<noteq> 1"
  shows "consolidateChanges (Multiple changes) None =
     unnestSingleChildren
       (Change (if findCommonPrefix changes = [] then None else Some (findCommonPrefix changes))
          None None
          (Some (map (stripCommonPrefix (length (findCommonPrefix changes))) changes)))"
proof (cases "findCommonPrefix changes = []")
  case True
  with assms show ?thesis
    by (simp add: consolidateChanges_def setPath_def stripCommonPrefix_zero
          del: unnestSingleChildren.simps)
next
  case False
  with assms show ?thesis
    by (simp add: consolidateChanges_def setPath_def Let_def
          del: unnestSingleChildren.simps)
qed

lemma unnestSingleChildren_keeps:
  assumes "2 \<le> length cs" and "\<forall>x\<in>set cs. normalForm x \<and> isNotEmpty x"
  shows "unnestSingleChildren (Change p f a (Some cs)) = Change p f a (Some cs)"
  using assms by (intro normalForm_fixed) (simp add: list_all_iff)


text \<open>
  What \<open>consolidateChanges\<close> does with a list of changes. \<open>findCommonPrefix\<close> returns
  a prefix of the path of every change (a missing path counts as empty) that is at least
  as long as every common prefix without a falsy element (the empty string, the number
  zero). \<open>stripCommonPrefix\<close> removes it from a change's path (and the path key when
  nothing is left) and keeps the other keys. For a list that does not have exactly one
  change, the result is the node with the common prefix as path (no path when it is
  empty) and the stripped changes as children, after \<open>unnestSingleChildren\<close>; that
  node itself when there are two or more changes and each is not empty and already
  unnested.
\<close>

lemma consolidateChanges_common_prefix:
  "(\<forall>ch\<in>set changes. prefix (findCommonPrefix changes) (pathOf ch))
   \<and> (changes \<noteq> [] \<and> (\<forall>s\<in>set cp. \<not> falsySegment s)
        \<and> (\<forall>ch\<in>set changes. prefix cp (pathOf ch))
       \<longrightarrow> prefix cp (findCommonPrefix changes))
   \<and> (\<forall>ch\<in>set changes.
        ch_p (stripCommonPrefix (length (findCommonPrefix changes)) ch) =
          (if drop (length (findCommonPrefix changes)) (pathOf ch) = [] then None
           else Some (drop (length (findCommonPrefix changes)) (pathOf ch)))
        \<and> ch_f (stripCommonPrefix (length (findCommonPrefix changes)) ch) = ch_f ch
        \<and> ch_a (stripCommonPrefix (length (findCommonPrefix changes)) ch) = ch_a ch
        \<and> ch_c (stripCommonPrefix (length (findCommonPrefix changes)) ch) = ch_c ch)
   \<and> (length changes \<noteq> 1 \<longrightarrow>
        consolidateChanges (Multiple changes) None =
          unnestSingleChildren
            (Change (if findCommonPrefix changes = [] then None
                     else Some (findCommonPrefix changes))
               None None
               (Some (map (stripCommonPrefix (length (findCommonPrefix changes))) changes))))
   \<and> (2 \<le> length changes \<and> (\<forall>ch\<in>set changes. normalForm ch \<and> isNotEmpty ch) \<longrightarrow>
        consolidateChanges (Multiple changes) None =
          Change (if findCommonPrefix changes = [] then None
                  else Some (findCommonPrefix changes))
            None None
            (Some (map (stripCommonPrefix (length (findCommonPrefix changes))) changes)))"
proof -
  let ?n = "length (findCommonPrefix changes)"
  have last: "consolidateChanges (Multiple changes) None =
          Change (if findCommonPrefix changes = [] then None
                  else Some (findCommonPrefix changes))
            None None (Some (map (stripCommonPrefix ?n) changes))"
    if len: "2 \<le> length changes" and nf: "\<forall>ch\<in>set changes. normalForm ch \<and> isNotEmpty ch"
  proof -
    have "normalForm x \<and> isNotEmpty x" if "x \<in> set (map (stripCommonPrefix ?n) changes)" for x
    proof -
      from that obtain ch where ch: "ch \<in> set changes" and x: "x = stripCommonPrefix ?n ch"
        by auto
      from nf ch have "normalForm ch" "isNotEmpty ch" by auto
      then show ?thesis
        unfolding x by (subst (1 2) stripCommonPrefix_repath)
          (simp add: normalForm_repath isNotEmpty_repath)
    qed
    then have keep: "unnestSingleChildren
       (Change (if findCommonPrefix changes = [] then None else Some (findCommonPrefix changes))
          None None (Some (map (stripCommonPrefix ?n) changes)))
      = Change (if findCommonPrefix changes = [] then None else Some (findCommonPrefix changes))
          None None (Some (map (stripCommonPrefix ?n) changes))"
      using len by (intro unnestSingleChildren_keeps) auto
    from len have "length changes \<noteq> 1" by simp
    from consolidateChanges_multiple [OF this] show ?thesis
      unfolding keep .
  qed
  show ?thesis
    using findCommonPrefix_prefix [of changes] findCommonPrefix_longest [of changes cp]
      consolidateChanges_multiple [of changes] last
    by (simp add: stripCommonPrefix_fields)
qed

text \<open>
  Changes at \<open>["a", "b"]\<close> and \<open>["a", "c"]\<close> give one node with the path \<open>["a"]\<close> and
  two children with the paths \<open>["b"]\<close> and \<open>["c"]\<close>, both when each change carries an
  operation and when each has no operation of its own but a child that has one.
\<close>

lemma consolidateChanges_hoists_prefix:
  "consolidateChanges
     (Multiple
        [Change (Some [Key ''a'', Key ''b'']) (Some ''='') (Some [Str ''k'', Num 1]) None,
         Change (Some [Key ''a'', Key ''c'']) (Some ''d'') (Some [Str ''k'']) None])
     None
   = Change (Some [Key ''a'']) None None
       (Some [Change (Some [Key ''b'']) (Some ''='') (Some [Str ''k'', Num 1]) None,
              Change (Some [Key ''c'']) (Some ''d'') (Some [Str ''k'']) None])
   \<and> consolidateChanges
     (Multiple
        [Change (Some [Key ''a'', Key ''b'']) None None
           (Some [Change None (Some ''='') (Some [Str ''k'', Num 1]) None]),
         Change (Some [Key ''a'', Key ''c'']) None None
           (Some [Change None (Some ''d'') (Some [Str ''k'']) None])])
     None
   = Change (Some [Key ''a'']) None None
       (Some [Change (Some [Key ''b'']) (Some ''='') (Some [Str ''k'', Num 1]) None,
              Change (Some [Key ''c'']) (Some ''d'') (Some [Str ''k'']) None])"
  by (simp add: consolidateChanges_def findCommonPrefix_def hasPath_def pathAt_def
        falsySegment_def stripCommonPrefix_def setPath_def falsyName_def emptyChange_def
        isNotEmpty_def)

text \<open>
  C1 says that the common prefix ends only at a change without a path, at a mismatch or
  at the end of a path. The loop of \<open>findCommonPrefix\<close> tests \<open>!pathElement\<close> for the
  end of the first path, and the number zero is falsy as well: for two changes at
  \<open>["components", 0, "name"]\<close> and \<open>["components", 0, "location"]\<close> the prefix that is
  hoisted is \<open>["components"]\<close>, not the longest common prefix \<open>["components", 0]\<close>,
  and the children keep the \<open>0\<close>. With the index 1 in place of 0 the same changes give
  \<open>["components", 1]\<close>.
\<close>

theorem consolidateChanges_zero_segment:
  "findCommonPrefix
     [Change (Some [Key ''components'', Index 0, Key ''name'']) (Some ''='')
        (Some [Str ''k'', Num 1]) None,
      Change (Some [Key ''components'', Index 0, Key ''location'']) (Some ''d'')
        (Some [Str ''k'']) None]
   = [Key ''components'']
   \<and> consolidateChanges
     (Multiple
        [Change (Some [Key ''components'', Index 0, Key ''name'']) (Some ''='')
           (Some [Str ''k'', Num 1]) None,
         Change (Some [Key ''components'', Index 0, Key ''location'']) (Some ''d'')
           (Some [Str ''k'']) None])
     None
   = Change (Some [Key ''components'']) None None
       (Some [Change (Some [Index 0, Key ''name'']) (Some ''='') (Some [Str ''k'', Num 1]) None,
              Change (Some [Index 0, Key ''location'']) (Some ''d'') (Some [Str ''k'']) None])
   \<and> consolidateChanges
     (Multiple
        [Change (Some [Key ''components'', Index 1, Key ''name'']) (Some ''='')
           (Some [Str ''k'', Num 1]) None,
         Change (Some [Key ''components'', Index 1, Key ''location'']) (Some ''d'')
           (Some [Str ''k'']) None])
     None
   = Change (Some [Key ''components'', Index 1]) None None
       (Some [Change (Some [Key ''name'']) (Some ''='') (Some [Str ''k'', Num 1]) None,
              Change (Some [Key ''location'']) (Some ''d'') (Some [Str ''k'']) None])"
  by (simp add: consolidateChanges_def findCommonPrefix_def hasPath_def pathAt_def
        falsySegment_def stripCommonPrefix_def setPath_def falsyName_def emptyChange_def
        isNotEmpty_def)

end
